theory Spec2Isabelle
  imports Complex_Main
begin

section \<open>The display data model (xrandr_parser.h)\<close>

text \<open>
  A \<^verbatim>\<open>double\<close> is modelled by its value: a sign and a non-negative rational for a
  finite number, an infinity, or a NaN.  Every finite binary64 number is such a
  rational.  Rounding is not modelled: \<open>strtod\<close> below keeps the exact value of the text
  it reads, where the C function returns the binary64 number nearest to it, or an
  infinity for a value beyond the range.
\<close>

datatype double = Finite bool rat | Infinity bool | NaN bool

record RefreshRate =
  rate :: double
  is_current :: bool
  is_preferred :: bool

record Mode =
  mode_width :: int
  mode_height :: int
  refresh_rates :: "RefreshRate list"

text \<open>
  The arrays \<open>modes\<close> and \<open>refresh_rates\<close> are lists; \<open>mode_count\<close> and
  \<open>rate_count\<close> are their lengths.  The flags \<open>connected\<close> and \<open>is_primary\<close> only
  ever hold 0 or 1 and are booleans here.
\<close>

record Display =
  name :: string
  connected :: bool
  is_primary :: bool
  width :: int
  height :: int
  x_offset :: int
  y_offset :: int
  modes :: "Mode list"

definition mode_count :: "Display \<Rightarrow> int" where
  "mode_count d = int (length (modes d))"

definition rate_count :: "Mode \<Rightarrow> int" where
  "rate_count m = int (length (refresh_rates m))"

text \<open>What \<open>memset(p, 0, sizeof *p)\<close> leaves in each struct.\<close>

definition zero_display :: Display where
  "zero_display = \<lparr>name = [], connected = False, is_primary = False, width = 0, height = 0,
     x_offset = 0, y_offset = 0, modes = []\<rparr>"

definition zero_rate :: RefreshRate where
  "zero_rate = \<lparr>rate = Finite False 0, is_current = False, is_preferred = False\<rparr>"

text \<open>
  Behaviour the C standard leaves undefined is a value of the model: storing a name of
  32 or more characters in \<open>char name[32]\<close>, and reading with \<open>%d\<close> a number that is
  not an \<open>int\<close>.
\<close>

datatype fault = Name_overflow | Int_overflow

section \<open>The C library functions the parser calls\<close>

definition isspace :: "char \<Rightarrow> bool" where
  "isspace c = (c = CHR '' '' \<or> (9 \<le> (of_char c :: nat) \<and> (of_char c :: nat) \<le> 13))"

definition isdigit :: "char \<Rightarrow> bool" where
  "isdigit c = (48 \<le> (of_char c :: nat) \<and> (of_char c :: nat) \<le> 57)"

definition isxdigit :: "char \<Rightarrow> bool" where
  "isxdigit c = (isdigit c \<or> (65 \<le> (of_char c :: nat) \<and> (of_char c :: nat) \<le> 70)
     \<or> (97 \<le> (of_char c :: nat) \<and> (of_char c :: nat) \<le> 102))"

definition isalnum_us :: "char \<Rightarrow> bool" where
  "isalnum_us c = (isdigit c \<or> (65 \<le> (of_char c :: nat) \<and> (of_char c :: nat) \<le> 90)
     \<or> (97 \<le> (of_char c :: nat) \<and> (of_char c :: nat) \<le> 122) \<or> c = CHR ''_'')"

definition tolower :: "char \<Rightarrow> char" where
  "tolower c = (if 65 \<le> (of_char c :: nat) \<and> (of_char c :: nat) \<le> 90
     then char_of ((of_char c :: nat) + 32) else c)"

definition digit_val :: "char \<Rightarrow> nat" where
  "digit_val c = (if isdigit c then of_char c - 48 else of_char (tolower c) - 87)"

definition num_val :: "nat \<Rightarrow> string \<Rightarrow> nat" where
  "num_val base ds = foldl (\<lambda>a c. base * a + digit_val c) 0 ds"

subsection \<open>fgets\<close>

text \<open>
  \<open>fgets_take k s\<close> takes characters of the stream \<open>s\<close> until \<open>k\<close> are taken, a
  newline is taken, or the stream ends.  \<open>fgets n s\<close> is \<open>None\<close> (the null pointer)
  at the end of the stream, and else the characters stored and the rest of the stream;
  \<open>n\<close> is the size of the buffer.
\<close>

fun fgets_take :: "nat \<Rightarrow> string \<Rightarrow> string \<times> string" where
  "fgets_take k [] = ([], [])"
| "fgets_take k (c # s) =
     (if k = 0 then ([], c # s)
      else if c = CHR 0x0A then ([c], s)
      else (case fgets_take (k - 1) s of (l, r) \<Rightarrow> (c # l, r)))"

definition fgets :: "nat \<Rightarrow> string \<Rightarrow> (string \<times> string) option" where
  "fgets n s = (if s = [] then None else Some (fgets_take (n - 1) s))"

text \<open>A buffer is read as a C string: up to its first NUL.\<close>

definition c_str :: "string \<Rightarrow> string" where
  "c_str buf = takeWhile (\<lambda>c. c \<noteq> CHR 0x00) buf"

subsection \<open>strstr\<close>

fun starts_with :: "string \<Rightarrow> string \<Rightarrow> bool" where
  "starts_with [] s = True"
| "starts_with (p # ps) [] = False"
| "starts_with (p # ps) (c # s) = (p = c \<and> starts_with ps s)"

text \<open>Only whether \<open>strstr\<close> returns the null pointer is used.\<close>

fun strstr :: "string \<Rightarrow> string \<Rightarrow> bool" where
  "strstr [] needle = starts_with needle []"
| "strstr (c # s) needle = (starts_with needle (c # s) \<or> strstr s needle)"

subsection \<open>sscanf\<close>

datatype directive = D_space | D_lit char | D_int | D_str | D_count

datatype conv = C_int int | C_str string | C_count nat

fun parse_format :: "string \<Rightarrow> directive list" where
  "parse_format [] = []"
| "parse_format (c # r) =
     (if c = CHR ''%'' then
        (case r of
           [] \<Rightarrow> []
         | d # r' \<Rightarrow>
             if d = CHR ''d'' then D_int # parse_format r'
             else if d = CHR ''s'' then D_str # parse_format r'
             else if d = CHR ''n'' then D_count # parse_format r'
             else [])
      else if isspace c then D_space # parse_format r
      else D_lit c # parse_format r)"

text \<open>\<open>%d\<close>: white space, an optional sign, one or more decimal digits.\<close>

definition scan_int :: "string \<Rightarrow> (int \<times> string) option" where
  "scan_int s =
     (let s1 = dropWhile isspace s;
          neg = (case s1 of [] \<Rightarrow> False | c # _ \<Rightarrow> c = CHR ''-'');
          s2 = (case s1 of [] \<Rightarrow> s1 | c # r \<Rightarrow> if c = CHR ''-'' \<or> c = CHR ''+'' then r else s1);
          ds = takeWhile isdigit s2
      in if ds = [] then None
         else Some (if neg then - int (num_val 10 ds) else int (num_val 10 ds),
                    dropWhile isdigit s2))"

definition int_range :: "int \<Rightarrow> bool" where
  "int_range v = (- 2147483648 \<le> v \<and> v \<le> 2147483647)"

definition conv_cons :: "conv \<Rightarrow> fault + conv list \<Rightarrow> fault + conv list" where
  "conv_cons v res = (case res of Inl f \<Rightarrow> Inl f | Inr vs \<Rightarrow> Inr (v # vs))"

text \<open>
  \<open>sscanf_run n ds s\<close> runs the directives \<open>ds\<close> on the input \<open>s\<close>, the rest of a
  string of \<open>n\<close> characters, and returns the conversions made, in order, up to the first
  directive that fails.  The value \<open>sscanf\<close> returns is the number of \<open>%d\<close> and \<open>%s\<close>
  conversions among them (or \<open>EOF\<close> when the input ends before the first).
\<close>

fun sscanf_run :: "nat \<Rightarrow> directive list \<Rightarrow> string \<Rightarrow> fault + conv list" where
  "sscanf_run n [] s = Inr []"
| "sscanf_run n (D_space # ds) s = sscanf_run n ds (dropWhile isspace s)"
| "sscanf_run n (D_lit c # ds) s =
     (case s of [] \<Rightarrow> Inr [] | x # r \<Rightarrow> if x = c then sscanf_run n ds r else Inr [])"
| "sscanf_run n (D_int # ds) s =
     (case scan_int s of
        None \<Rightarrow> Inr []
      | Some (v, r) \<Rightarrow>
          if int_range v then conv_cons (C_int v) (sscanf_run n ds r) else Inl Int_overflow)"
| "sscanf_run n (D_str # ds) s =
     (let s1 = dropWhile isspace s; w = takeWhile (\<lambda>c. \<not> isspace c) s1
      in if w = [] then Inr []
         else conv_cons (C_str w) (sscanf_run n ds (dropWhile (\<lambda>c. \<not> isspace c) s1)))"
| "sscanf_run n (D_count # ds) s = conv_cons (C_count (n - length s)) (sscanf_run n ds s)"

definition sscanf :: "string \<Rightarrow> string \<Rightarrow> fault + conv list" where
  "sscanf str format = sscanf_run (length str) (parse_format format) str"

subsection \<open>strtod\<close>

definition ci_prefix :: "string \<Rightarrow> string \<Rightarrow> bool" where
  "ci_prefix p s = starts_with p (map tolower s)"

definition scan_mantissa :: "(char \<Rightarrow> bool) \<Rightarrow> string \<Rightarrow> (string \<times> string \<times> string) option" where
  "scan_mantissa isd s =
     (let ip = takeWhile isd s; s1 = dropWhile isd s;
          fp = (case s1 of [] \<Rightarrow> [] | c # r \<Rightarrow> if c = CHR ''.'' then takeWhile isd r else []);
          s2 = (case s1 of [] \<Rightarrow> s1 | c # r \<Rightarrow> if c = CHR ''.'' then dropWhile isd r else s1)
      in if ip = [] \<and> fp = [] then None else Some (ip, fp, s2))"

definition scan_exponent :: "char \<Rightarrow> string \<Rightarrow> int \<times> string" where
  "scan_exponent m s =
     (case s of
        [] \<Rightarrow> (0, s)
      | c # r \<Rightarrow>
          if tolower c \<noteq> m then (0, s)
          else
            (let neg = (case r of [] \<Rightarrow> False | x # _ \<Rightarrow> x = CHR ''-'');
                 r1 = (case r of [] \<Rightarrow> r | x # t \<Rightarrow> if x = CHR ''-'' \<or> x = CHR ''+'' then t else r);
                 ds = takeWhile isdigit r1
             in if ds = [] then (0, s)
                else (if neg then - int (num_val 10 ds) else int (num_val 10 ds),
                      dropWhile isdigit r1)))"

definition scale :: "rat \<Rightarrow> rat \<Rightarrow> int \<Rightarrow> rat" where
  "scale b m e = (if 0 \<le> e then m * b ^ nat e else m / b ^ nat (- e))"

definition skip_nan_payload :: "string \<Rightarrow> string" where
  "skip_nan_payload s =
     (case s of
        [] \<Rightarrow> s
      | c # r \<Rightarrow>
          if c = CHR ''('' then
            (case dropWhile isalnum_us r of [] \<Rightarrow> s | x # t \<Rightarrow> if x = CHR '')'' then t else s)
          else s)"

text \<open>
  \<open>strtod nptr\<close> is \<open>None\<close> when no conversion is made (\<open>endptr == nptr\<close>), and else
  the value and \<open>endptr\<close>.  The subject is white space, an optional sign, and then
  \<open>inf\<close>, \<open>infinity\<close>, \<open>nan\<close>, a hexadecimal or a decimal number.
\<close>

definition strtod_subject :: "bool \<Rightarrow> string \<Rightarrow> (double \<times> string) option" where
  "strtod_subject neg s2 =
     (if ci_prefix ''infinity'' s2 then Some (Infinity neg, drop 8 s2)
      else if ci_prefix ''inf'' s2 then Some (Infinity neg, drop 3 s2)
      else if ci_prefix ''nan'' s2 then Some (NaN neg, skip_nan_payload (drop 3 s2))
      else
        (case (if ci_prefix ''0x'' s2 then scan_mantissa isxdigit (drop 2 s2) else None) of
           Some (ip, fp, s3) \<Rightarrow>
             (case scan_exponent (CHR ''p'') s3 of
                (e, s4) \<Rightarrow>
                  Some (Finite neg
                    (scale 2 (of_nat (num_val 16 (ip @ fp)) / 16 ^ length fp) e), s4))
         | None \<Rightarrow>
             (case scan_mantissa isdigit s2 of
                None \<Rightarrow> None
              | Some (ip, fp, s3) \<Rightarrow>
                  (case scan_exponent (CHR ''e'') s3 of
                     (e, s4) \<Rightarrow>
                       Some (Finite neg
                         (scale 10 (of_nat (num_val 10 (ip @ fp)) / 10 ^ length fp) e), s4)))))"

definition strtod :: "string \<Rightarrow> (double \<times> string) option" where
  "strtod nptr =
     (let s1 = dropWhile isspace nptr;
          neg = (case s1 of [] \<Rightarrow> False | c # _ \<Rightarrow> c = CHR ''-'');
          s2 = (case s1 of [] \<Rightarrow> s1 | c # r \<Rightarrow> if c = CHR ''-'' \<or> c = CHR ''+'' then r else s1)
      in strtod_subject neg s2)"

text \<open>A conversion by \<open>strtod\<close> consumes at least one character.\<close>

lemma len_dropWhile: "length (dropWhile P s) \<le> length s"
  by (induction s) auto

lemma starts_with_length: "starts_with p s \<Longrightarrow> length p \<le> length s"
  by (induction p s rule: starts_with.induct) auto

lemma ci_prefix_length: "ci_prefix p s \<Longrightarrow> length p \<le> length s"
  using starts_with_length[of p "map tolower s"] by (simp add: ci_prefix_def)

lemma skip_nan_payload_length: "length (skip_nan_payload s) \<le> length s"
  using len_dropWhile[of isalnum_us "tl s"]
  by (auto simp: skip_nan_payload_def split: list.splits)

lemma scan_exponent_length: "scan_exponent m s = (e, r) \<Longrightarrow> length r \<le> length s"
proof (cases s)
  case Nil
  assume "scan_exponent m s = (e, r)"
  with Nil show ?thesis by (simp add: scan_exponent_def)
next
  case (Cons c t)
  assume a: "scan_exponent m s = (e, r)"
  have 1: "length (dropWhile isdigit t) \<le> length t" by (rule len_dropWhile)
  have 2: "length (dropWhile isdigit (tl t)) \<le> length t"
    using len_dropWhile[of isdigit "tl t"] by simp
  from a Cons 1 2 show ?thesis
    by (auto simp: scan_exponent_def Let_def split: list.splits if_splits)
qed

lemma scan_mantissa_length:
  assumes "scan_mantissa isd s = Some (ip, fp, r)"
  shows "length r < length s"
proof -
  have tk: "\<And>xs. length (takeWhile isd xs) + length (dropWhile isd xs) = length xs"
    by (metis length_append takeWhile_dropWhile_id)
  show ?thesis
  proof (cases "dropWhile isd s")
    case Nil
    with assms tk[of s] show ?thesis
      by (auto simp: scan_mantissa_def Let_def split: if_splits)
  next
    case (Cons c t)
    have d: "length (dropWhile isd s) = Suc (length t)" using Cons by simp
    show ?thesis
    proof (cases "c = CHR ''.''")
      case True
      with assms Cons have "r = dropWhile isd t"
        by (auto simp: scan_mantissa_def Let_def split: if_splits)
      with d tk[of s] len_dropWhile[of isd t] show ?thesis by simp
    next
      case False
      with assms Cons have "r = dropWhile isd s" and "takeWhile isd s \<noteq> []"
        by (auto simp: scan_mantissa_def Let_def split: if_splits)
      with tk[of s] show ?thesis by (cases "takeWhile isd s") auto
    qed
  qed
qed

lemma strtod_subject_length:
  assumes "strtod_subject neg s = Some (v, e)"
  shows "length e < length s"
proof -
  consider (inf8) "ci_prefix ''infinity'' s"
    | (inf3) "\<not> ci_prefix ''infinity'' s" "ci_prefix ''inf'' s"
    | (nan) "\<not> ci_prefix ''infinity'' s" "\<not> ci_prefix ''inf'' s" "ci_prefix ''nan'' s"
    | (num) "\<not> ci_prefix ''infinity'' s" "\<not> ci_prefix ''inf'' s" "\<not> ci_prefix ''nan'' s"
    by blast
  then show ?thesis
  proof cases
    case inf8
    with assms ci_prefix_length[OF inf8] show ?thesis
      by (auto simp add: strtod_subject_def)
  next
    case inf3
    with assms ci_prefix_length[OF inf3(2)] show ?thesis
      by (auto simp add: strtod_subject_def)
  next
    case nan
    with assms ci_prefix_length[OF nan(3)] skip_nan_payload_length[of "drop 3 s"] show ?thesis
      by (auto simp add: strtod_subject_def)
  next
    case num
    show ?thesis
    proof (cases "if ci_prefix ''0x'' s then scan_mantissa isxdigit (drop 2 s) else None")
      case None
      with num assms obtain ip fp s3 ex where
        m: "scan_mantissa isdigit s = Some (ip, fp, s3)" and x: "scan_exponent (CHR ''e'') s3 = (ex, e)"
        by (auto simp add: strtod_subject_def split: option.splits prod.splits)
      from scan_mantissa_length[OF m] scan_exponent_length[OF x] show ?thesis by simp
    next
      case (Some t)
      obtain ip fp s3 where t: "t = (ip, fp, s3)" by (cases t) auto
      from Some t have m: "scan_mantissa isxdigit (drop 2 s) = Some (ip, fp, s3)"
        by (auto split: if_splits)
      from num assms Some t obtain ex where x: "scan_exponent (CHR ''p'') s3 = (ex, e)"
        by (auto simp add: strtod_subject_def split: option.splits prod.splits)
      from scan_mantissa_length[OF m] scan_exponent_length[OF x] show ?thesis by simp
    qed
  qed
qed

lemma strtod_length:
  assumes "strtod s = Some (v, e)"
  shows "length e < length s"
proof -
  define s1 where "s1 = dropWhile isspace s"
  define s2 where "s2 = (case s1 of [] \<Rightarrow> s1 | c # r \<Rightarrow> if c = CHR ''-'' \<or> c = CHR ''+'' then r else s1)"
  have l1: "length s1 \<le> length s" unfolding s1_def by (rule len_dropWhile)
  have l2: "length s2 \<le> length s1" unfolding s2_def by (auto split: list.splits)
  have "strtod s = strtod_subject (case s1 of [] \<Rightarrow> False | c # _ \<Rightarrow> c = CHR ''-'') s2"
    unfolding strtod_def Let_def s1_def s2_def by (rule refl)
  with assms have "strtod_subject (case s1 of [] \<Rightarrow> False | c # _ \<Rightarrow> c = CHR ''-'') s2 = Some (v, e)"
    by simp
  from strtod_subject_length[OF this] l1 l2 show ?thesis by simp
qed

section \<open>The report parser (parse_xrandr_output)\<close>

subsection \<open>The refresh rates of a mode line\<close>

text \<open>
  The inner loop: skip white space, then consume a \<open>*\<close> or a \<open>+\<close> and set the flag of
  the current rate, until the next character is neither.  It returns the rate and
  \<open>ptr\<close>.
\<close>

function parse_markers :: "string \<Rightarrow> RefreshRate \<Rightarrow> RefreshRate \<times> string" where
  "parse_markers ptr current_rate =
     (case dropWhile isspace ptr of
        [] \<Rightarrow> (current_rate, [])
      | c # p \<Rightarrow>
          if c = CHR ''*'' then parse_markers p (current_rate\<lparr>is_current := True\<rparr>)
          else if c = CHR ''+'' then parse_markers p (current_rate\<lparr>is_preferred := True\<rparr>)
          else (current_rate, c # p))"
  by pat_completeness auto
termination
proof (relation "measure (\<lambda>(ptr, r). length ptr)")
  show "wf (measure (\<lambda>(ptr, r). length ptr))" by simp
next
  fix ptr :: string and current_rate :: RefreshRate and c p
  assume "dropWhile isspace ptr = c # p"
  with len_dropWhile[of isspace ptr]
  show "((p, current_rate\<lparr>is_current := True\<rparr>), (ptr, current_rate))
      \<in> measure (\<lambda>(ptr, r). length ptr)"
    by simp
next
  fix ptr :: string and current_rate :: RefreshRate and c p
  assume "dropWhile isspace ptr = c # p"
  with len_dropWhile[of isspace ptr]
  show "((p, current_rate\<lparr>is_preferred := True\<rparr>), (ptr, current_rate))
      \<in> measure (\<lambda>(ptr, r). length ptr)"
    by simp
qed

declare parse_markers.simps [simp del]

lemma parse_markers_length: "parse_markers ptr r = (r', ptr') \<Longrightarrow> length ptr' \<le> length ptr"
proof (induction ptr r arbitrary: r' ptr' rule: parse_markers.induct)
  case (1 ptr current_rate)
  show ?case
  proof (cases "dropWhile isspace ptr")
    case Nil
    with "1.prems" show ?thesis by (simp add: parse_markers.simps[of ptr])
  next
    case (Cons c p)
    have l: "Suc (length p) \<le> length ptr"
      using len_dropWhile[of isspace ptr] Cons by simp
    show ?thesis
    proof (cases "c = CHR ''*''")
      case True
      with "1.prems" Cons have "parse_markers p (current_rate\<lparr>is_current := True\<rparr>) = (r', ptr')"
        by (simp add: parse_markers.simps[of ptr])
      from "1.IH"(1)[OF Cons True this] l show ?thesis by simp
    next
      case False
      note nstar = False
      show ?thesis
      proof (cases "c = CHR ''+''")
        case True
        with "1.prems" Cons nstar
        have "parse_markers p (current_rate\<lparr>is_preferred := True\<rparr>) = (r', ptr')"
          by (simp add: parse_markers.simps[of ptr])
        from "1.IH"(2)[OF Cons nstar True this] l show ?thesis by simp
      next
        case False
        with "1.prems" Cons nstar have "ptr' = c # p"
          by (simp add: parse_markers.simps[of ptr])
        with l show ?thesis by simp
      qed
    qed
  qed
qed

text \<open>
  The outer loop: \<open>strtod\<close> reads the next rate; when it converts nothing the loop
  ends.  The rates are returned in the order they are appended.
\<close>

function parse_rates :: "string \<Rightarrow> RefreshRate list" where
  "parse_rates ptr =
     (case strtod ptr of
        None \<Rightarrow> []
      | Some (rate_val, endptr) \<Rightarrow>
          (case parse_markers endptr (zero_rate\<lparr>rate := rate_val\<rparr>) of
             (current_rate, ptr') \<Rightarrow> current_rate # parse_rates ptr'))"
  by pat_completeness auto
termination
proof (relation "measure length")
  show "wf (measure length)" by simp
next
  fix ptr :: string and x2 x y xa ya
  assume "strtod ptr = Some x2" and "(x, y) = x2"
    and "(xa, ya) = parse_markers y (zero_rate\<lparr>rate := x\<rparr>)"
  then have a: "strtod ptr = Some (x, y)"
    and b: "parse_markers y (zero_rate\<lparr>rate := x\<rparr>) = (xa, ya)"
    by simp_all
  from strtod_length[OF a] parse_markers_length[OF b]
  show "(ya, ptr) \<in> measure length" by simp
qed

declare parse_rates.simps [simp del]

subsection \<open>One line of the report\<close>

text \<open>
  The parser's variables: the array \<open>displays\<close> (\<open>*display_count\<close> is its length) and
  \<open>current_display_ptr\<close>, the index of the display it points to or \<open>None\<close> for the
  null pointer.
\<close>

record parser =
  displays :: "Display list"
  current_display_ptr :: "nat option"

text \<open>
  The header formats start with \<open>%s\<close> and go on with four \<open>%d\<close>: the first
  conversion is stored in \<open>name\<close>, the next ones in \<open>width\<close>, \<open>height\<close>,
  \<open>x_offset\<close> and \<open>y_offset\<close>; a field whose conversion was not made keeps its value.
\<close>

definition int_at :: "conv list \<Rightarrow> nat \<Rightarrow> int \<Rightarrow> int" where
  "int_at vs k dflt =
     (if k < length vs then (case vs ! k of C_int v \<Rightarrow> v | _ \<Rightarrow> dflt) else dflt)"

definition store_header :: "conv list \<Rightarrow> Display \<Rightarrow> fault + Display" where
  "store_header vs d =
     (case vs of
        C_str s # rest \<Rightarrow>
          if length s < 32 then
            Inr (d\<lparr>name := s, width := int_at rest 0 (width d), height := int_at rest 1 (height d),
                   x_offset := int_at rest 2 (x_offset d), y_offset := int_at rest 3 (y_offset d)\<rparr>)
          else Inl Name_overflow
      | _ \<Rightarrow> Inr d)"

definition scan_header :: "string \<Rightarrow> string \<Rightarrow> Display \<Rightarrow> fault + Display" where
  "scan_header line format d =
     (case sscanf line format of Inl f \<Rightarrow> Inl f | Inr vs \<Rightarrow> store_header vs d)"

definition push_display :: "parser \<Rightarrow> fault + Display \<Rightarrow> fault + parser" where
  "push_display st res =
     (case res of
        Inl f \<Rightarrow> Inl f
      | Inr d \<Rightarrow>
          Inr \<lparr>displays = displays st @ [d], current_display_ptr = Some (length (displays st))\<rparr>)"

definition add_mode :: "Mode \<Rightarrow> parser \<Rightarrow> parser" where
  "add_mode m st =
     (case current_display_ptr st of
        None \<Rightarrow> st
      | Some i \<Rightarrow>
          st\<lparr>displays := (displays st)[i := (displays st ! i)\<lparr>modes := modes (displays st ! i) @ [m]\<rparr>]\<rparr>)"

definition current_connected :: "parser \<Rightarrow> bool" where
  "current_connected st =
     (case current_display_ptr st of
        None \<Rightarrow> False
      | Some i \<Rightarrow> i < length (displays st) \<and> connected (displays st ! i))"

text \<open>
  The body of the \<open>while\<close> loop, on the C string \<open>line\<close>.  The test of the inner
  \<open>if\<close> is the test of the outer one, as in the source.  On a mode line \<open>sscanf\<close>
  returns 2 exactly when its conversions are the two numbers and the count of \<open>%n\<close>;
  \<open>&line[n]\<close> is then \<open>drop n line\<close>.
\<close>

definition process_line :: "string \<Rightarrow> parser \<Rightarrow> fault + parser" where
  "process_line line st =
     (if strstr line '' connected'' then
        (if strstr line '' connected'' then
           (if strstr line '' primary'' then
              push_display st
                (scan_header line ''%s connected primary %dx%d+%d+%d''
                   (zero_display\<lparr>connected := True, is_primary := True\<rparr>))
            else
              push_display st
                (scan_header line ''%s connected %dx%d+%d+%d''
                   (zero_display\<lparr>connected := True, is_primary := False\<rparr>)))
         else
           push_display st
             (scan_header line ''%s disconnected'' (zero_display\<lparr>connected := False\<rparr>)))
      else if current_connected st \<and> (case line of [] \<Rightarrow> False | c # _ \<Rightarrow> isspace c) then
        (case sscanf line '' %dx%d %n'' of
           Inl f \<Rightarrow> Inl f
         | Inr vs \<Rightarrow>
             (case vs of
                [C_int w, C_int h, C_count n] \<Rightarrow>
                  Inr (add_mode
                         \<lparr>mode_width = w, mode_height = h,
                          refresh_rates = parse_rates (drop n line)\<rparr> st)
              | _ \<Rightarrow> Inr st))
      else Inr (st\<lparr>current_display_ptr := None\<rparr>))"

subsection \<open>The whole report\<close>

lemma fgets_take_length: "fgets_take k s = (l, r) \<Longrightarrow> length l + length r = length s"
proof (induction k s arbitrary: l r rule: fgets_take.induct)
  case (1 k)
  then show ?case by simp
next
  case (2 k c s)
  show ?case
  proof (cases "k = 0 \<or> c = CHR 0x0A")
    case True
    with "2.prems" show ?thesis by (auto split: if_splits)
  next
    case False
    obtain l' r' where e: "fgets_take (k - 1) s = (l', r')" by (cases "fgets_take (k - 1) s")
    with False "2.prems" have "l = c # l'" and "r = r'" by auto
    with "2.IH"[OF _ _ e] False show ?thesis by simp
  qed
qed

lemma fgets_take_nonempty: "0 < k \<Longrightarrow> fgets_take k (c # s) = (l, r) \<Longrightarrow> l \<noteq> []"
  by (auto split: if_splits prod.splits)

lemma fgets_progress:
  assumes "fgets n s = Some (l, r)" and "1 < n"
  shows "length r < length s"
proof -
  from assms obtain c t where s: "s = c # t" by (cases s) (auto simp: fgets_def)
  with assms have e: "fgets_take (n - 1) (c # t) = (l, r)" by (simp add: fgets_def)
  from assms(2) have "0 < n - 1" by simp
  from fgets_take_nonempty[OF this e] fgets_take_length[OF e] s show ?thesis
    by (cases l) auto
qed

text \<open>
  The lines \<open>fgets(line, sizeof(line), fp)\<close> delivers until it returns the null
  pointer, with \<open>char line[256]\<close>.
\<close>

function read_lines :: "string \<Rightarrow> string list" where
  "read_lines fp =
     (case fgets 256 fp of None \<Rightarrow> [] | Some (line, rest) \<Rightarrow> line # read_lines rest)"
  by pat_completeness auto
termination
proof (relation "measure length")
  show "wf (measure length)" by simp
next
  fix fp :: string and x2 x y
  assume "fgets 256 fp = Some x2" and "(x, y) = x2"
  then have "fgets 256 fp = Some (x, y)" by simp
  from fgets_progress[OF this] show "(y, fp) \<in> measure length" by simp
qed

declare read_lines.simps [simp del]

fun parse_lines :: "string list \<Rightarrow> parser \<Rightarrow> fault + parser" where
  "parse_lines [] st = Inr st"
| "parse_lines (line # rest) st =
     (case process_line (c_str line) st of Inl f \<Rightarrow> Inl f | Inr st' \<Rightarrow> parse_lines rest st')"

text \<open>
  \<open>parse_xrandr_output\<close> on what \<open>popen\<close> gives: \<open>None\<close> when it fails, and else the
  text the command writes.  The result is the pointer returned: \<open>None\<close> is the null
  pointer, which is also what \<open>displays\<close> holds when no display was appended.
  Allocation is taken to succeed.
\<close>

definition parse_xrandr_output :: "string option \<Rightarrow> fault + Display list option" where
  "parse_xrandr_output popen_result =
     (case popen_result of
        None \<Rightarrow> Inr None
      | Some fp \<Rightarrow>
          (case parse_lines (read_lines fp) \<lparr>displays = [], current_display_ptr = None\<rparr> of
             Inl f \<Rightarrow> Inl f
           | Inr st \<Rightarrow> Inr (if displays st = [] then None else Some (displays st))))"

subsection \<open>Whole lines\<close>



section \<open>The terminal interface (tui.c, the version with the position panel)\<close>

subsection \<open>Command strings\<close>

text \<open>\<open>%d\<close> of \<open>printf\<close>: a minus sign for a negative number, and the decimal digits.\<close>

definition digit_char :: "nat \<Rightarrow> char" where
  "digit_char d = ''0123456789'' ! d"

function digits :: "nat \<Rightarrow> string" where
  "digits n = (if n < 10 then [digit_char n] else digits (n div 10) @ [digit_char (n mod 10)])"
  by pat_completeness auto
termination
  by (relation "measure (\<lambda>n. n)") auto

declare digits.simps [simp del]





text \<open>
  \<open>snprintf(command, sizeof(command), ...)\<close> with \<open>char command[256]\<close> stores at most
  255 characters of the formatted text.
\<close>

definition snprintf_256 :: "string \<Rightarrow> string" where
  "snprintf_256 formatted = take 255 formatted"


text \<open>The command \<open>apply_position_settings\<close> builds.\<close>

definition apply_position_settings :: "Display \<Rightarrow> Display \<Rightarrow> string \<Rightarrow> string" where
  "apply_position_settings source_display target_display direction =
     snprintf_256 (''xrandr --output '' @ name source_display @ '' --'' @ direction @ '' ''
       @ name target_display @ '' --auto'')"

subsection \<open>setup_display_data\<close>

text \<open>
  What \<open>setup_display_data\<close> stores through its pointers.  \<open>connected_displays\<close>
  holds pointers into the parsed array, which is not written after the parse: the model
  holds the displays themselves.
\<close>

record display_data =
  menu_items :: "string list"
  num_items :: int
  connected_displays :: "Display list"
  connected_count :: int

text \<open>The first loop counts the connected displays.\<close>

fun count_connected :: "Display list \<Rightarrow> int \<Rightarrow> int" where
  "count_connected [] n = n"
| "count_connected (d # ds) n = count_connected ds (if connected d then n + 1 else n)"

text \<open>
  The second loop stores the name of and the pointer to each connected display at
  index \<open>current_item\<close>, the number of entries stored so far.
\<close>

fun fill_menu :: "Display list \<Rightarrow> string list \<times> Display list \<Rightarrow> string list \<times> Display list" where
  "fill_menu [] acc = acc"
| "fill_menu (d # ds) (items, ptrs) =
     fill_menu ds (if connected d then (items @ [name d], ptrs @ [d]) else (items, ptrs))"

text \<open>
  \<open>None\<close> is the return value \<open>false\<close>.  \<open>menu_items\<close> is an array of
  \<open>*connected_count + 1\<close> entries: the loop has stored the first ones, the others are
  not initialised (the empty string here), and \<open>Exit\<close> is stored at index
  \<open>*connected_count\<close>.  Allocation is taken to succeed.
\<close>

definition setup_display_data :: "fault + Display list option \<Rightarrow> fault + display_data option" where
  "setup_display_data parsed =
     (case parsed of
        Inl f \<Rightarrow> Inl f
      | Inr None \<Rightarrow> Inr None
      | Inr (Some ds) \<Rightarrow>
          (let n = count_connected ds 0 in
           case fill_menu ds ([], []) of
             (items, ptrs) \<Rightarrow>
               Inr (Some \<lparr>menu_items =
                             (items @ replicate (nat (n + 1) - length items) [])[nat n := ''Exit''],
                           num_items = n + 1,
                           connected_displays = ptrs, connected_count = n\<rparr>)))"

subsection \<open>The state of the main loop\<close>

datatype AppState =
  STATE_MONITOR_SELECT | STATE_MODE_SELECT | STATE_RATE_SELECT | STATE_POSITION_SELECT

datatype PositionPanelFocus = POS_PANEL_TARGET | POS_PANEL_DIRECTION

text \<open>
  The variables of \<open>main\<close> that the key handlers read and write.
  \<open>position_target_displays\<close> is \<open>None\<close> for the null pointer.  Drawing, and with it
  \<open>needs_redraw\<close>, is left out.  The \<open>int\<close> variables are integers without bound: the
  selections and offsets stay within the lengths of the lists.
\<close>

record app =
  data :: display_data
  state :: AppState
  monitor_highlight :: int
  mode_highlight :: int
  rate_highlight :: int
  monitor_scroll :: int
  mode_scroll :: int
  rate_scroll :: int
  pos_panel_focus :: PositionPanelFocus
  pos_target_highlight :: int
  pos_direction_highlight :: int
  position_target_displays :: "Display list option"
  position_target_count :: int

definition position_directions :: "string list" where
  "position_directions = [''right-of'', ''left-of'', ''above'', ''below'', ''same-as'']"

definition position_direction_count :: int where
  "position_direction_count = int (length position_directions)"

text \<open>
  One turn of the loop ends in the next state, in a \<open>return\<close> of \<open>main\<close> with its
  exit code, or in undefined behaviour: an index outside its array, a null pointer read.
\<close>

datatype outcome = Continue app | Return int | Undefined

text \<open>The groups of \<open>case\<close> labels of the \<open>switch\<close> on the key read.\<close>

datatype key =
  Key_q | Key_o | Key_p | Key_resize | Key_up | Key_down | Key_tab | Key_right | Key_left
  | Key_enter | Key_other

definition at_index :: "'a list \<Rightarrow> int \<Rightarrow> 'a option" where
  "at_index xs i = (if 0 \<le> i \<and> i < int (length xs) then Some (xs ! nat i) else None)"

text \<open>The remainder of C, which truncates the quotient towards zero.\<close>

definition c_rem :: "int \<Rightarrow> int \<Rightarrow> int" where
  "c_rem a b = sgn a * (\<bar>a\<bar> mod \<bar>b\<bar>)"

text \<open>
  The state after \<open>setup_display_data\<close> succeeded and the selection was reset to the
  top; the variables of the position panel keep their values.
\<close>

definition reset_to_top :: "display_data \<Rightarrow> app \<Rightarrow> app" where
  "reset_to_top d a =
     a\<lparr>data := d, state := STATE_MONITOR_SELECT, monitor_highlight := 0, monitor_scroll := 0,
       mode_highlight := 0, mode_scroll := 0, rate_highlight := 0, rate_scroll := 0\<rparr>"

text \<open>
  After a command has run: the data is parsed and set up again from \<open>report\<close>, what
  \<open>popen\<close> gives then; a failure ends the program with exit code 1.
\<close>

definition reparse :: "string option \<Rightarrow> app \<Rightarrow> outcome" where
  "reparse report a =
     (case setup_display_data (parse_xrandr_output report) of
        Inl f \<Rightarrow> Undefined
      | Inr None \<Rightarrow> Return 1
      | Inr (Some d) \<Rightarrow> Continue (reset_to_top d a))"

text \<open>Where \<open>main\<close> enters its loop.\<close>

definition main_start :: "string option \<Rightarrow> outcome" where
  "main_start report =
     (case setup_display_data (parse_xrandr_output report) of
        Inl f \<Rightarrow> Undefined
      | Inr None \<Rightarrow> Return 1
      | Inr (Some d) \<Rightarrow>
          Continue \<lparr>data = d, state = STATE_MONITOR_SELECT, monitor_highlight = 0,
            mode_highlight = 0, rate_highlight = 0, monitor_scroll = 0, mode_scroll = 0,
            rate_scroll = 0, pos_panel_focus = POS_PANEL_TARGET, pos_target_highlight = 0,
            pos_direction_highlight = 0, position_target_displays = None,
            position_target_count = 0\<rparr>)"

subsection \<open>The key handlers\<close>

definition right_panel_view_height :: "int \<Rightarrow> int" where
  "right_panel_view_height rows = (if rows - 8 < 1 then 1 else rows - 8)"

text \<open>
  The handlers of \<open>k\<close> and \<open>j\<close> move the selection of the monitor, mode and rate
  lists by the same statements: from the selection, the scroll offset, the length of the
  list and the height of its view to the new selection and scroll offset.
\<close>

definition up_in_list :: "int \<Rightarrow> int \<Rightarrow> int \<Rightarrow> int \<Rightarrow> int \<times> int" where
  "up_in_list highlight scroll n view_height =
     (let h = (if highlight = 0 then n - 1 else highlight - 1)
      in (h, if h < scroll then h
             else if h \<ge> n - 1 then (if n > view_height then n - view_height else 0)
             else scroll))"

definition down_in_list :: "int \<Rightarrow> int \<Rightarrow> int \<Rightarrow> int \<Rightarrow> int \<times> int" where
  "down_in_list highlight scroll n view_height =
     (let h = c_rem (highlight + 1) n
      in (h, if h \<ge> scroll + view_height then h - view_height + 1
             else if h = 0 then 0
             else scroll))"

definition key_up :: "int \<Rightarrow> app \<Rightarrow> outcome" where
  "key_up rows a =
     (if state a = STATE_MONITOR_SELECT then
        (case up_in_list (monitor_highlight a) (monitor_scroll a) (num_items (data a)) (rows - 4) of
           (h, sc) \<Rightarrow> Continue (a\<lparr>monitor_highlight := h, monitor_scroll := sc\<rparr>))
      else if state a = STATE_MODE_SELECT then
        (case at_index (connected_displays (data a)) (monitor_highlight a) of
           None \<Rightarrow> Undefined
         | Some d \<Rightarrow>
             if mode_count d > 0 then
               (case up_in_list (mode_highlight a) (mode_scroll a) (mode_count d)
                       (right_panel_view_height rows) of
                  (h, sc) \<Rightarrow> Continue (a\<lparr>mode_highlight := h, mode_scroll := sc\<rparr>))
             else Continue a)
      else if state a = STATE_POSITION_SELECT then
        (if pos_panel_focus a = POS_PANEL_TARGET then
           (if position_target_count a > 0 then
              Continue (a\<lparr>pos_target_highlight :=
                (if pos_target_highlight a = 0 then position_target_count a - 1
                 else pos_target_highlight a - 1)\<rparr>)
            else Continue a)
         else
           Continue (a\<lparr>pos_direction_highlight :=
             (if pos_direction_highlight a = 0 then position_direction_count - 1
              else pos_direction_highlight a - 1)\<rparr>))
      else
        (case at_index (connected_displays (data a)) (monitor_highlight a) of
           None \<Rightarrow> Undefined
         | Some d \<Rightarrow>
             if mode_count d > 0 then
               (case at_index (modes d) (mode_highlight a) of
                  None \<Rightarrow> Undefined
                | Some m \<Rightarrow>
                    if rate_count m > 0 then
                      (case up_in_list (rate_highlight a) (rate_scroll a) (rate_count m)
                              (right_panel_view_height rows) of
                         (h, sc) \<Rightarrow> Continue (a\<lparr>rate_highlight := h, rate_scroll := sc\<rparr>))
                    else Continue a)
             else Continue a))"

text \<open>A remainder by zero is undefined: \<open>num_items\<close> is the only unguarded divisor.\<close>

definition key_down :: "int \<Rightarrow> app \<Rightarrow> outcome" where
  "key_down rows a =
     (if state a = STATE_MONITOR_SELECT then
        (if num_items (data a) = 0 then Undefined
         else
           (case down_in_list (monitor_highlight a) (monitor_scroll a) (num_items (data a))
                   (rows - 4) of
              (h, sc) \<Rightarrow> Continue (a\<lparr>monitor_highlight := h, monitor_scroll := sc\<rparr>)))
      else if state a = STATE_MODE_SELECT then
        (case at_index (connected_displays (data a)) (monitor_highlight a) of
           None \<Rightarrow> Undefined
         | Some d \<Rightarrow>
             if mode_count d > 0 then
               (case down_in_list (mode_highlight a) (mode_scroll a) (mode_count d)
                       (right_panel_view_height rows) of
                  (h, sc) \<Rightarrow> Continue (a\<lparr>mode_highlight := h, mode_scroll := sc\<rparr>))
             else Continue a)
      else if state a = STATE_POSITION_SELECT then
        (if pos_panel_focus a = POS_PANEL_TARGET then
           (if position_target_count a > 0 then
              Continue (a\<lparr>pos_target_highlight :=
                c_rem (pos_target_highlight a + 1) (position_target_count a)\<rparr>)
            else Continue a)
         else
           Continue (a\<lparr>pos_direction_highlight :=
             c_rem (pos_direction_highlight a + 1) position_direction_count\<rparr>))
      else
        (case at_index (connected_displays (data a)) (monitor_highlight a) of
           None \<Rightarrow> Undefined
         | Some d \<Rightarrow>
             if mode_count d > 0 then
               (case at_index (modes d) (mode_highlight a) of
                  None \<Rightarrow> Undefined
                | Some m \<Rightarrow>
                    if rate_count m > 0 then
                      (case down_in_list (rate_highlight a) (rate_scroll a) (rate_count m)
                              (right_panel_view_height rows) of
                         (h, sc) \<Rightarrow> Continue (a\<lparr>rate_highlight := h, rate_scroll := sc\<rparr>))
                    else Continue a)
             else Continue a))"

text \<open>
  \<open>o\<close>: \<open>toggle_display_power\<close> reads the selected display and runs its command, then
  the data is set up again.  What a command does to the displays is seen through
  \<open>report\<close> only.
\<close>

definition key_o :: "string option \<Rightarrow> app \<Rightarrow> outcome" where
  "key_o report a =
     (if state a = STATE_MONITOR_SELECT \<and> monitor_highlight a < connected_count (data a) then
        (case at_index (connected_displays (data a)) (monitor_highlight a) of
           None \<Rightarrow> Undefined
         | Some selected_display \<Rightarrow> reparse report a)
      else Continue a)"

text \<open>
  \<open>p\<close>: the loop \<open>for (i = 0; i < connected_count; i++)\<close> that stores every connected
  display but the one at \<open>monitor_highlight\<close>; \<open>None\<close> when it reads outside
  \<open>connected_displays\<close>.
\<close>

function build_targets :: "Display list \<Rightarrow> int \<Rightarrow> int \<Rightarrow> int \<Rightarrow> Display list option" where
  "build_targets cds n h i =
     (if i < n then
        (if i = h then build_targets cds n h (i + 1)
         else
           (case at_index cds i of
              None \<Rightarrow> None
            | Some d \<Rightarrow> map_option ((#) d) (build_targets cds n h (i + 1))))
      else Some [])"
  by pat_completeness auto
termination
  by (relation "measure (\<lambda>(cds, n, h, i). nat (n - i))") auto

declare build_targets.simps [simp del]

text \<open>The array allocated has \<open>connected_count - 1\<close> entries: storing more is undefined.\<close>

definition key_p :: "app \<Rightarrow> outcome" where
  "key_p a =
     (if state a = STATE_MONITOR_SELECT \<and> connected_count (data a) > 1 then
        (case build_targets (connected_displays (data a)) (connected_count (data a))
                (monitor_highlight a) 0 of
           None \<Rightarrow> Undefined
         | Some targets \<Rightarrow>
             if int (length targets) > connected_count (data a) - 1 then Undefined
             else
               Continue (a\<lparr>state := STATE_POSITION_SELECT,
                 position_target_count := connected_count (data a) - 1,
                 position_target_displays := Some targets,
                 pos_panel_focus := POS_PANEL_TARGET, pos_target_highlight := 0,
                 pos_direction_highlight := 0\<rparr>))
      else Continue a)"

definition key_tab :: "app \<Rightarrow> outcome" where
  "key_tab a =
     (if state a = STATE_POSITION_SELECT then
        Continue (a\<lparr>pos_panel_focus :=
          (if pos_panel_focus a = POS_PANEL_TARGET then POS_PANEL_DIRECTION else POS_PANEL_TARGET)\<rparr>)
      else Continue a)"

definition key_right :: "app \<Rightarrow> outcome" where
  "key_right a =
     (if state a = STATE_MONITOR_SELECT \<and> monitor_highlight a < connected_count (data a) then
        Continue (a\<lparr>state := STATE_MODE_SELECT, mode_highlight := 0, mode_scroll := 0,
          rate_highlight := 0, rate_scroll := 0\<rparr>)
      else if state a = STATE_MODE_SELECT then
        (case at_index (connected_displays (data a)) (monitor_highlight a) of
           None \<Rightarrow> Undefined
         | Some d \<Rightarrow>
             if mode_count d > 0 then
               Continue (a\<lparr>state := STATE_RATE_SELECT, rate_highlight := 0, rate_scroll := 0\<rparr>)
             else Continue a)
      else Continue a)"

definition key_left :: "app \<Rightarrow> outcome" where
  "key_left a =
     (if state a = STATE_POSITION_SELECT then
        Continue (a\<lparr>state := STATE_MONITOR_SELECT, position_target_displays := None,
          position_target_count := 0\<rparr>)
      else if state a = STATE_RATE_SELECT then
        Continue (a\<lparr>state := STATE_MODE_SELECT, rate_highlight := 0, rate_scroll := 0\<rparr>)
      else if state a = STATE_MODE_SELECT then
        Continue (a\<lparr>state := STATE_MONITOR_SELECT, mode_highlight := 0, mode_scroll := 0\<rparr>)
      else Continue a)"

text \<open>
  Enter in the rate panel reads the selected display, mode and rate for
  \<open>apply_xrandr_settings\<close>; in the position panel the source, the target and the
  direction for \<open>apply_position_settings\<close>.
\<close>

definition selected_rate :: "app \<Rightarrow> (Display \<times> Mode \<times> RefreshRate) option" where
  "selected_rate a =
     (case at_index (connected_displays (data a)) (monitor_highlight a) of
        None \<Rightarrow> None
      | Some d \<Rightarrow>
          (case at_index (modes d) (mode_highlight a) of
             None \<Rightarrow> None
           | Some m \<Rightarrow>
               (case at_index (refresh_rates m) (rate_highlight a) of
                  None \<Rightarrow> None
                | Some r \<Rightarrow> Some (d, m, r))))"

definition selected_position :: "app \<Rightarrow> (Display \<times> Display \<times> string) option" where
  "selected_position a =
     (case at_index (connected_displays (data a)) (monitor_highlight a) of
        None \<Rightarrow> None
      | Some source_display \<Rightarrow>
          (case position_target_displays a of
             None \<Rightarrow> None
           | Some targets \<Rightarrow>
               (case at_index targets (pos_target_highlight a) of
                  None \<Rightarrow> None
                | Some target_display \<Rightarrow>
                    (case at_index position_directions (pos_direction_highlight a) of
                       None \<Rightarrow> None
                     | Some direction \<Rightarrow> Some (source_display, target_display, direction)))))"

definition key_enter :: "string option \<Rightarrow> app \<Rightarrow> outcome" where
  "key_enter report a =
     (if state a = STATE_MONITOR_SELECT then
        (if monitor_highlight a = connected_count (data a) then Return 0
         else
           Continue (a\<lparr>state := STATE_MODE_SELECT, mode_highlight := 0, mode_scroll := 0,
             rate_highlight := 0, rate_scroll := 0\<rparr>))
      else if state a = STATE_MODE_SELECT then
        (case at_index (connected_displays (data a)) (monitor_highlight a) of
           None \<Rightarrow> Undefined
         | Some d \<Rightarrow>
             if mode_count d > 0 then
               Continue (a\<lparr>state := STATE_RATE_SELECT, rate_highlight := 0, rate_scroll := 0\<rparr>)
             else Continue a)
      else if state a = STATE_POSITION_SELECT then
        (case selected_position a of
           None \<Rightarrow> Undefined
         | Some sel \<Rightarrow> reparse report (a\<lparr>position_target_displays := None\<rparr>))
      else
        (case selected_rate a of
           None \<Rightarrow> Undefined
         | Some sel \<Rightarrow> reparse report (a\<lparr>position_target_displays := None\<rparr>)))"

text \<open>
  One turn of the loop on the key read: \<open>rows\<close> is the height of the terminal at the
  last redraw, \<open>report\<close> what \<open>popen\<close> gives if the data is parsed again in this turn.
\<close>

definition step :: "int \<Rightarrow> string option \<Rightarrow> key \<Rightarrow> app \<Rightarrow> outcome" where
  "step rows report k a =
     (case k of
        Key_q \<Rightarrow> Return 0
      | Key_o \<Rightarrow> key_o report a
      | Key_p \<Rightarrow> key_p a
      | Key_resize \<Rightarrow> Continue a
      | Key_up \<Rightarrow> key_up rows a
      | Key_down \<Rightarrow> key_down rows a
      | Key_tab \<Rightarrow> key_tab a
      | Key_right \<Rightarrow> key_right a
      | Key_left \<Rightarrow> key_left a
      | Key_enter \<Rightarrow> key_enter report a
      | Key_other \<Rightarrow> Continue a)"

text \<open>The loop on a sequence of turns, from a state.\<close>

fun run :: "(int \<times> string option \<times> key) list \<Rightarrow> outcome \<Rightarrow> outcome" where
  "run [] out = out"
| "run ((rows, report, k) # turns) out =
     (case out of Continue a \<Rightarrow> run turns (step rows report k a) | _ \<Rightarrow> out)"

section \<open>Notions and inputs of the statements\<close>


text \<open>
  The list that \<open>j\<close> and \<open>k\<close> move in, as its length and the selected index: the menu,
  the modes of the selected display, the rates of the selected mode, and in the position
  panel the targets or the directions.  \<open>None\<close> when the selected display or mode cannot
  be read.
\<close>

definition current_list :: "app \<Rightarrow> (int \<times> int) option" where
  "current_list a =
     (case state a of
        STATE_MONITOR_SELECT \<Rightarrow> Some (num_items (data a), monitor_highlight a)
      | STATE_MODE_SELECT \<Rightarrow>
          (case at_index (connected_displays (data a)) (monitor_highlight a) of
             None \<Rightarrow> None
           | Some d \<Rightarrow> Some (mode_count d, mode_highlight a))
      | STATE_RATE_SELECT \<Rightarrow>
          (case at_index (connected_displays (data a)) (monitor_highlight a) of
             None \<Rightarrow> None
           | Some d \<Rightarrow>
               (case at_index (modes d) (mode_highlight a) of
                  None \<Rightarrow> None
                | Some m \<Rightarrow> Some (rate_count m, rate_highlight a)))
      | STATE_POSITION_SELECT \<Rightarrow>
          (if pos_panel_focus a = POS_PANEL_TARGET
           then Some (position_target_count a, pos_target_highlight a)
           else Some (position_direction_count, pos_direction_highlight a)))"

text \<open>
  The states \<open>main\<close> can be in at the top of its loop, and what holds in all of them: the
  counts are those of the data, the menu selection is an entry of the menu, and in a panel
  the selections it reads are entries of their lists.
\<close>

inductive reachable :: "app \<Rightarrow> bool" where
  start: "main_start report = Continue a \<Longrightarrow> reachable a"
| turn: "reachable a \<Longrightarrow> step rows report k a = Continue a' \<Longrightarrow> reachable a'"

definition data_inv :: "display_data \<Rightarrow> bool" where
  "data_inv d =
     (connected_count d = int (length (connected_displays d)) \<and> num_items d = connected_count d + 1)"

definition mode_inv :: "app \<Rightarrow> bool" where
  "mode_inv a =
     (case at_index (connected_displays (data a)) (monitor_highlight a) of
        None \<Rightarrow> False
      | Some d \<Rightarrow>
          0 \<le> mode_highlight a
          \<and> (if state a = STATE_RATE_SELECT then mode_highlight a < mode_count d
               else mode_highlight a < mode_count d \<or> mode_count d = 0))"

definition position_inv :: "app \<Rightarrow> bool" where
  "position_inv a =
     (case position_target_displays a of
        None \<Rightarrow> False
      | Some ts \<Rightarrow>
          position_target_count a = int (length ts) \<and> 0 \<le> pos_target_highlight a
          \<and> pos_target_highlight a < position_target_count a
          \<and> 0 \<le> pos_direction_highlight a
          \<and> pos_direction_highlight a < position_direction_count)"

definition nav_inv :: "app \<Rightarrow> bool" where
  "nav_inv a =
     (data_inv (data a) \<and> 0 \<le> monitor_highlight a \<and> monitor_highlight a < num_items (data a)
      \<and> (case state a of
            STATE_MONITOR_SELECT \<Rightarrow> True
          | STATE_MODE_SELECT \<Rightarrow> mode_inv a
          | STATE_RATE_SELECT \<Rightarrow> mode_inv a
          | STATE_POSITION_SELECT \<Rightarrow>
              monitor_highlight a < connected_count (data a) \<and> position_inv a))"

text \<open>The report of the scenario of the specification.\<close>

definition scenario_report :: string where
  "scenario_report =
     ''HDMI-1 connected primary 1920x1080+0+0\<newline>   1920x1080     60.00*+  59.94\<newline>HDMI-2 disconnected\<newline>''"


text \<open>A display with a mode line that has no rate.\<close>

definition rateless_report :: string where
  "rateless_report = ''A connected\<newline>   1x1\<newline>''"

definition display_A :: "Mode list \<Rightarrow> Display" where
  "display_A ms = \<lparr>name = ''A'', connected = True, is_primary = False, width = 0, height = 0,
     x_offset = 0, y_offset = 0, modes = ms\<rparr>"


definition display_B :: "Mode list \<Rightarrow> Display" where
  "display_B ms = \<lparr>name = ''B'', connected = True, is_primary = False, width = 0, height = 0,
     x_offset = 0, y_offset = 0, modes = ms\<rparr>"

definition two_displays_data :: display_data where
  "two_displays_data = \<lparr>menu_items = [''A'', ''B'', ''Exit''], num_items = 3,
     connected_displays = [display_A [], display_B []], connected_count = 2\<rparr>"

definition two_displays_app :: app where
  "two_displays_app =
     \<lparr>data = two_displays_data,
       state = STATE_MONITOR_SELECT, monitor_highlight = 0,
       mode_highlight = 0, rate_highlight = 0, monitor_scroll = 0, mode_scroll = 0,
       rate_scroll = 0, pos_panel_focus = POS_PANEL_TARGET, pos_target_highlight = 0,
       pos_direction_highlight = 0, position_target_displays = None,
       position_target_count = 0\<rparr>"




text \<open>A power of two, and so the value of a binary64 number.\<close>

definition huge_rate :: rat where
  "huge_rate = of_nat (2 ^ 700)"

section \<open>Properties of the rate scan\<close>

lemmas char_class = isspace_def isdigit_def isxdigit_def tolower_def digit_val_def num_val_def
lemmas scan_defs = sscanf_def scan_int_def int_range_def conv_cons_def
lemmas strtod_defs = strtod_def strtod_subject_def ci_prefix_def scan_mantissa_def
  scan_exponent_def scale_def
lemmas line_defs = process_line_def scan_header_def store_header_def int_at_def push_display_def
  add_mode_def current_connected_def zero_display_def

lemma dropWhile_isspace_append:
  "list_all isspace ws \<Longrightarrow> dropWhile isspace (ws @ p) = dropWhile isspace p"
  by (induction ws) auto

lemma parse_markers_skip: "list_all isspace ws \<Longrightarrow> parse_markers (ws @ p) r = parse_markers p r"
  by (simp add: parse_markers.simps[of "ws @ p"] parse_markers.simps[of p] dropWhile_isspace_append)

lemma parse_markers_star:
  "parse_markers (CHR ''*'' # p) r = parse_markers p (r\<lparr>is_current := True\<rparr>)"
  by (simp add: parse_markers.simps[of "CHR ''*'' # p"] isspace_def)

lemma parse_markers_plus:
  "parse_markers (CHR ''+'' # p) r = parse_markers p (r\<lparr>is_preferred := True\<rparr>)"
  by (simp add: parse_markers.simps[of "CHR ''+'' # p"] isspace_def)

lemma parse_markers_keeps:
  "parse_markers p r = (r', p') \<Longrightarrow>
     rate r' = rate r \<and> (is_current r \<longrightarrow> is_current r') \<and> (is_preferred r \<longrightarrow> is_preferred r')"
proof (induction p r arbitrary: r' p' rule: parse_markers.induct)
  case (1 ptr current_rate)
  show ?case
  proof (cases "dropWhile isspace ptr")
    case Nil
    with "1.prems" show ?thesis by (simp add: parse_markers.simps[of ptr])
  next
    case (Cons c p)
    show ?thesis
    proof (cases "c = CHR ''*''")
      case True
      with "1.prems" Cons have "parse_markers p (current_rate\<lparr>is_current := True\<rparr>) = (r', p')"
        by (simp add: parse_markers.simps[of ptr])
      from "1.IH"(1)[OF Cons True this] show ?thesis by simp
    next
      case False
      note nstar = False
      show ?thesis
      proof (cases "c = CHR ''+''")
        case True
        with "1.prems" Cons nstar
        have "parse_markers p (current_rate\<lparr>is_preferred := True\<rparr>) = (r', p')"
          by (simp add: parse_markers.simps[of ptr])
        from "1.IH"(2)[OF Cons nstar True this] show ?thesis by simp
      next
        case False
        with "1.prems" Cons nstar show ?thesis by (simp add: parse_markers.simps[of ptr])
      qed
    qed
  qed
qed

lemma strtod_60: "strtod (''60.00'' @ m # rest) = Some (Finite False 60, m # rest)"
  if "m = CHR ''*'' \<or> m = CHR ''+''"
  using that by (auto simp add: strtod_defs char_class)

lemma parse_rates_unfold:
  "strtod ptr = Some (v, e) \<Longrightarrow>
     parse_rates ptr = (case parse_markers e (zero_rate\<lparr>rate := v\<rparr>) of (r, p) \<Rightarrow> r # parse_rates p)"
  by (simp add: parse_rates.simps[of ptr])

lemma parse_rates_head:
  assumes "strtod ptr = Some (v, e)"
  shows "\<exists>r p. parse_markers e (zero_rate\<lparr>rate := v\<rparr>) = (r, p) \<and> parse_rates ptr = r # parse_rates p"
proof -
  obtain r p where "parse_markers e (zero_rate\<lparr>rate := v\<rparr>) = (r, p)"
    by (cases "parse_markers e (zero_rate\<lparr>rate := v\<rparr>)")
  with assms show ?thesis by (simp add: parse_rates.simps[of ptr])
qed

lemma both_flags:
  assumes "parse_markers p r0 = (r, p')" and "is_current r0" and "is_preferred r0"
  shows "r = \<lparr>rate = rate r0, is_current = True, is_preferred = True\<rparr>"
  using parse_markers_keeps[OF assms(1)] assms(2,3) by (cases r) simp

text \<open>
  C5: the rate tokens \<open>60.00*+\<close> and \<open>60.00+*\<close> both give the rate 60.00 with
  \<open>is_current\<close> and \<open>is_preferred\<close> set, whatever follows them on the line; a marker
  written twice gives what it gives written once; and each marker alone sets its own flag
  only.
\<close>

theorem rate_markers_either_order:
  "(\<exists>rs. parse_rates (''60.00*+'' @ rest) =
          \<lparr>rate = Finite False 60, is_current = True, is_preferred = True\<rparr> # rs)
   \<and> (\<exists>rs. parse_rates (''60.00+*'' @ rest) =
          \<lparr>rate = Finite False 60, is_current = True, is_preferred = True\<rparr> # rs)
   \<and> parse_rates (''60.00**'' @ rest) = parse_rates (''60.00*'' @ rest)
   \<and> parse_rates (''60.00++'' @ rest) = parse_rates (''60.00+'' @ rest)
   \<and> parse_rates ''60.00*'' = [\<lparr>rate = Finite False 60, is_current = True, is_preferred = False\<rparr>]
   \<and> parse_rates ''60.00+'' = [\<lparr>rate = Finite False 60, is_current = False, is_preferred = True\<rparr>]"
proof (intro conjI)
  let ?z = "zero_rate\<lparr>rate := Finite False 60\<rparr>"
  have s1: "strtod (''60.00*+'' @ rest) = Some (Finite False 60, ''*+'' @ rest)"
    using strtod_60[of "CHR ''*''" "CHR ''+'' # rest"] by simp
  from parse_rates_head[OF s1] obtain r p where
    m: "parse_markers (''*+'' @ rest) ?z = (r, p)" and e: "parse_rates (''60.00*+'' @ rest) = r # parse_rates p"
    by blast
  from m have "parse_markers rest (?z\<lparr>is_current := True, is_preferred := True\<rparr>) = (r, p)"
    by (simp add: parse_markers_star parse_markers_plus)
  from both_flags[OF this] e
  show "\<exists>rs. parse_rates (''60.00*+'' @ rest) =
          \<lparr>rate = Finite False 60, is_current = True, is_preferred = True\<rparr> # rs" by simp
next
  let ?z = "zero_rate\<lparr>rate := Finite False 60\<rparr>"
  have s1: "strtod (''60.00+*'' @ rest) = Some (Finite False 60, ''+*'' @ rest)"
    using strtod_60[of "CHR ''+''" "CHR ''*'' # rest"] by simp
  from parse_rates_head[OF s1] obtain r p where
    m: "parse_markers (''+*'' @ rest) ?z = (r, p)" and e: "parse_rates (''60.00+*'' @ rest) = r # parse_rates p"
    by blast
  from m have "parse_markers rest (?z\<lparr>is_preferred := True, is_current := True\<rparr>) = (r, p)"
    by (simp add: parse_markers_star parse_markers_plus)
  from both_flags[OF this] e
  show "\<exists>rs. parse_rates (''60.00+*'' @ rest) =
          \<lparr>rate = Finite False 60, is_current = True, is_preferred = True\<rparr> # rs" by simp
next
  have a: "strtod (''60.00**'' @ rest) = Some (Finite False 60, ''**'' @ rest)"
    and b: "strtod (''60.00*'' @ rest) = Some (Finite False 60, ''*'' @ rest)"
    using strtod_60[of "CHR ''*''" "CHR ''*'' # rest"] strtod_60[of "CHR ''*''" rest] by simp_all
  show "parse_rates (''60.00**'' @ rest) = parse_rates (''60.00*'' @ rest)"
    using parse_rates_unfold[OF a] parse_rates_unfold[OF b] by (simp add: parse_markers_star)
next
  have a: "strtod (''60.00++'' @ rest) = Some (Finite False 60, ''++'' @ rest)"
    and b: "strtod (''60.00+'' @ rest) = Some (Finite False 60, ''+'' @ rest)"
    using strtod_60[of "CHR ''+''" "CHR ''+'' # rest"] strtod_60[of "CHR ''+''" rest] by simp_all
  show "parse_rates (''60.00++'' @ rest) = parse_rates (''60.00+'' @ rest)"
    using parse_rates_unfold[OF a] parse_rates_unfold[OF b] by (simp add: parse_markers_plus)
next
  show "parse_rates ''60.00*'' = [\<lparr>rate = Finite False 60, is_current = True, is_preferred = False\<rparr>]"
    by (simp add: parse_rates.simps parse_markers.simps strtod_defs char_class zero_rate_def)
next
  show "parse_rates ''60.00+'' = [\<lparr>rate = Finite False 60, is_current = False, is_preferred = True\<rparr>]"
    by (simp add: parse_rates.simps parse_markers.simps strtod_defs char_class zero_rate_def)
qed

text \<open>
  C10: a \<open>*\<close> or \<open>+\<close> that white space separates from the number \<open>strtod\<close> has just
  read, also one standing alone between two numbers, sets the flag of that rate.
\<close>

theorem marker_after_whitespace:
  assumes "strtod ptr = Some (v, ws @ m # rest)" and "list_all isspace ws"
    and "m = CHR ''*'' \<or> m = CHR ''+''"
  shows "\<exists>r rs. parse_rates ptr = r # rs \<and> rate r = v
           \<and> (if m = CHR ''*'' then is_current r else is_preferred r)"
proof -
  from parse_rates_head[OF assms(1)] obtain r p where
    m: "parse_markers (ws @ m # rest) (zero_rate\<lparr>rate := v\<rparr>) = (r, p)"
    and e: "parse_rates ptr = r # parse_rates p"
    by blast
  from m assms(2) have m': "parse_markers (m # rest) (zero_rate\<lparr>rate := v\<rparr>) = (r, p)"
    by (simp add: parse_markers_skip)
  show ?thesis
  proof (cases "m = CHR ''*''")
    case True
    with m' have "parse_markers rest (zero_rate\<lparr>rate := v, is_current := True\<rparr>) = (r, p)"
      by (simp add: parse_markers_star)
    from parse_markers_keeps[OF this] e True show ?thesis by simp
  next
    case False
    with assms(3) have plus: "m = CHR ''+''" by simp
    with m' have "parse_markers rest (zero_rate\<lparr>rate := v, is_preferred := True\<rparr>) = (r, p)"
      by (simp add: parse_markers_plus)
    from parse_markers_keeps[OF this] e False show ?thesis by simp
  qed
qed

theorem marker_after_whitespace_witness:
  "(\<exists>r rs. parse_rates ''60.00  * 59.94'' = r # rs \<and> rate r = Finite False 60 \<and> is_current r)
   \<and> (\<exists>r rs. parse_rates ''59.94 +'' = r # rs \<and> rate r = Finite False (2997 / 50) \<and> is_preferred r)"
proof -
  have a: "strtod ''60.00  * 59.94'' = Some (Finite False 60, ''  '' @ CHR ''*'' # '' 59.94'')"
    by (simp add: strtod_defs char_class)
  have b: "strtod ''59.94 +'' = Some (Finite False (2997 / 50), '' '' @ CHR ''+'' # [])"
    by (simp add: strtod_defs char_class)
  have w: "list_all isspace ''  ''" "list_all isspace '' ''" by (simp_all add: isspace_def)
  from marker_after_whitespace[OF a w(1)] marker_after_whitespace[OF b w(2)]
  show ?thesis by simp
qed

section \<open>Properties of the report parser\<close>

subsection \<open>The report of the scenario\<close>

lemma scenario_read_lines:
  "read_lines scenario_report =
     [''HDMI-1 connected primary 1920x1080+0+0\<newline>'',
      ''   1920x1080     60.00*+  59.94\<newline>'', ''HDMI-2 disconnected\<newline>'']"
  by (simp add: scenario_report_def read_lines.simps fgets_def)

lemma scenario_line_1: "process_line (c_str ''HDMI-1 connected primary 1920x1080+0+0\<newline>'')
     \<lparr>displays = [], current_display_ptr = None\<rparr> =
   Inr \<lparr>displays = [\<lparr>name = ''HDMI-1'', connected = True, is_primary = True, width = 1920,
     height = 1080, x_offset = 0, y_offset = 0, modes = []\<rparr>], current_display_ptr = Some 0\<rparr>"
  by (simp add: c_str_def line_defs scan_defs char_class)

lemma scenario_line_2: "process_line (c_str ''   1920x1080     60.00*+  59.94\<newline>'')
     \<lparr>displays = [\<lparr>name = ''HDMI-1'', connected = True, is_primary = True, width = 1920,
       height = 1080, x_offset = 0, y_offset = 0, modes = []\<rparr>], current_display_ptr = Some 0\<rparr> =
   Inr \<lparr>displays = [\<lparr>name = ''HDMI-1'', connected = True, is_primary = True, width = 1920,
     height = 1080, x_offset = 0, y_offset = 0,
     modes = [\<lparr>mode_width = 1920, mode_height = 1080,
       refresh_rates = [\<lparr>rate = Finite False 60, is_current = True, is_preferred = True\<rparr>,
         \<lparr>rate = Finite False (2997 / 50), is_current = False, is_preferred = False\<rparr>]\<rparr>]\<rparr>],
     current_display_ptr = Some 0\<rparr>"
  by (simp add: c_str_def line_defs scan_defs char_class parse_rates.simps parse_markers.simps
      strtod_defs zero_rate_def)

lemma scenario_line_3: "process_line (c_str ''HDMI-2 disconnected\<newline>'') st =
   Inr (st\<lparr>current_display_ptr := None\<rparr>)"
  by (simp add: c_str_def line_defs scan_defs char_class)

text \<open>
  C1: on the report of the scenario the parser returns one display, HDMI-1.  The line
  \<open>HDMI-2 disconnected\<close> does not contain \<open>" connected"\<close>, so the branch that would
  record a display with \<open>connected = 0\<close> is not taken: the line only closes the current
  display.
\<close>

theorem disconnected_header_not_recorded:
  "parse_xrandr_output (Some scenario_report) =
     Inr (Some [\<lparr>name = ''HDMI-1'', connected = True, is_primary = True, width = 1920,
       height = 1080, x_offset = 0, y_offset = 0,
       modes = [\<lparr>mode_width = 1920, mode_height = 1080,
         refresh_rates = [\<lparr>rate = Finite False 60, is_current = True, is_preferred = True\<rparr>,
           \<lparr>rate = Finite False (2997 / 50), is_current = False, is_preferred = False\<rparr>]\<rparr>]\<rparr>])"
  by (simp add: parse_xrandr_output_def scenario_read_lines scenario_line_1 scenario_line_2 scenario_line_3)

text \<open>
  No report makes the parser record a display with \<open>connected = 0\<close>: every display of
  its result is connected.
\<close>

lemma store_header_connected: "store_header vs d = Inr d' \<Longrightarrow> connected d' = connected d"
  by (auto simp: store_header_def split: list.splits conv.splits if_splits)

lemma scan_header_connected: "scan_header line format d = Inr d' \<Longrightarrow> connected d' = connected d"
  by (auto simp: scan_header_def split: sum.splits dest: store_header_connected)

lemma add_mode_connected:
  "list_all connected (displays st) \<Longrightarrow> list_all connected (displays (add_mode m st))"
proof (cases "current_display_ptr st")
  case None
  assume "list_all connected (displays st)"
  with None show ?thesis by (simp add: add_mode_def)
next
  case (Some i)
  assume a: "list_all connected (displays st)"
  show ?thesis
  proof (cases "i < length (displays st)")
    case True
    with a have "connected (displays st ! i)" by (simp add: list_all_length)
    with a Some True show ?thesis
      by (auto simp: add_mode_def list_all_length nth_list_update)
  next
    case False
    then have "(displays st)[i := (displays st ! i)\<lparr>modes := modes (displays st ! i) @ [m]\<rparr>]
        = displays st"
      by (simp add: list_update_beyond)
    with a Some show ?thesis by (simp add: add_mode_def)
  qed
qed

lemma process_line_connected:
  assumes "list_all connected (displays st)" and "process_line line st = Inr st'"
  shows "list_all connected (displays st')"
proof (cases "strstr line '' connected''")
  case True
  with assms(2) obtain d where "displays st' = displays st @ [d]" and "connected d"
    by (auto simp: process_line_def push_display_def split: if_splits sum.splits
        dest: scan_header_connected)
  with assms(1) show ?thesis by simp
next
  case False
  with assms show ?thesis
    by (auto simp: process_line_def add_mode_connected
        split: if_splits sum.splits list.splits conv.splits)
qed

lemma parse_lines_connected:
  "list_all connected (displays st) \<Longrightarrow> parse_lines ls st = Inr st' \<Longrightarrow>
     list_all connected (displays st')"
proof (induction ls arbitrary: st)
  case Nil
  then show ?case by simp
next
  case (Cons l ls)
  from Cons.prems(2) obtain st1 where a: "process_line (c_str l) st = Inr st1"
    and b: "parse_lines ls st1 = Inr st'"
    by (auto split: sum.splits)
  from process_line_connected[OF Cons.prems(1) a] Cons.IH[OF _ b] show ?case by simp
qed

lemma parsed_displays_connected:
  assumes "parse_xrandr_output popen_result = Inr (Some ds)"
  shows "list_all connected ds"
proof -
  from assms obtain fp st where "parse_lines (read_lines fp) \<lparr>displays = [], current_display_ptr = None\<rparr> = Inr st"
    and "ds = displays st"
    by (auto simp: parse_xrandr_output_def split: option.splits sum.splits if_splits)
  with parse_lines_connected[of "\<lparr>displays = [], current_display_ptr = None\<rparr>" "read_lines fp" st]
  show ?thesis by simp
qed

subsection \<open>Lines longer than the buffer\<close>
















section \<open>Properties of setup_display_data\<close>

lemma count_connected_eq: "count_connected ds n = n + int (length (filter connected ds))"
  by (induction ds arbitrary: n) auto

lemma fill_menu_eq:
  "fill_menu ds (items, ptrs) =
     (items @ map name (filter connected ds), ptrs @ filter connected ds)"
  by (induction ds arbitrary: items ptrs) auto

lemma menu_with_exit:
  assumes "length items = k"
  shows "(items @ replicate (nat (int k + 1) - length items) [])[nat (int k) := e] = items @ [e]"
proof -
  have "nat (int k + 1) - length items = Suc 0" using assms by simp
  then show ?thesis using assms by (simp add: list_update_append)
qed

lemma setup_display_data_Some:
  "setup_display_data (Inr (Some ds)) =
     Inr (Some \<lparr>menu_items = map name (filter connected ds) @ [''Exit''],
                 num_items = int (length (filter connected ds)) + 1,
                 connected_displays = filter connected ds,
                 connected_count = int (length (filter connected ds))\<rparr>)"
proof -
  let ?c = "filter connected ds"
  have "(map name ?c @ replicate (nat (int (length ?c) + 1) - length (map name ?c)) [])
          [nat (int (length ?c)) := ''Exit''] = map name ?c @ [''Exit'']"
    by (rule menu_with_exit) simp
  then show ?thesis
    by (simp add: setup_display_data_def count_connected_eq fill_menu_eq Let_def)
qed

lemma setup_display_data_None: "setup_display_data (Inr None) = Inr None"
  by (simp add: setup_display_data_def)

lemma setup_display_data_Inl: "setup_display_data (Inl f) = Inl f"
  by (simp add: setup_display_data_def)

text \<open>
  C8: for any parsed displays \<open>ds\<close>, \<open>setup_display_data\<close> succeeds; the connected
  displays it stores are \<open>ds\<close> filtered by \<open>connected\<close>, in the order of \<open>ds\<close>, their
  number is \<open>connected_count\<close>, and the menu is their names followed by \<open>Exit\<close>, one
  entry more.
\<close>

theorem connected_projection:
  "\<exists>d. setup_display_data (Inr (Some ds)) = Inr (Some d)
     \<and> connected_displays d = filter connected ds
     \<and> connected_count d = int (length (filter connected ds))
     \<and> menu_items d = map name (connected_displays d) @ [''Exit'']
     \<and> int (length (menu_items d)) = connected_count d + 1
     \<and> num_items d = connected_count d + 1
     \<and> last (menu_items d) = ''Exit''"
  by (simp add: setup_display_data_Some)

section \<open>Reports without a header line\<close>

lemma add_mode_length: "length (displays (add_mode m st)) = length (displays st)"
  by (simp add: add_mode_def split: option.splits)

lemma process_line_length:
  assumes "process_line line st = Inr st'"
  shows "length (displays st') = length (displays st) + (if strstr line '' connected'' then 1 else 0)"
proof (cases "strstr line '' connected''")
  case True
  with assms show ?thesis
    by (auto simp: process_line_def push_display_def split: if_splits sum.splits)
next
  case False
  with assms show ?thesis
    by (auto simp: process_line_def add_mode_length split: if_splits sum.splits list.splits conv.splits)
qed

lemma parse_lines_length:
  "parse_lines ls st = Inr st' \<Longrightarrow>
     length (displays st') =
       length (displays st) + length (filter (\<lambda>l. strstr (c_str l) '' connected'') ls)"
proof (induction ls arbitrary: st)
  case Nil
  then show ?case by simp
next
  case (Cons l ls)
  from Cons.prems obtain st1 where a: "process_line (c_str l) st = Inr st1"
    and b: "parse_lines ls st1 = Inr st'"
    by (auto split: sum.splits)
  from process_line_length[OF a] Cons.IH[OF b] show ?case by simp
qed

lemma process_line_other:
  assumes "\<not> strstr line '' connected''" and "current_display_ptr st = None"
  shows "process_line line st = Inr st"
  using assms by (simp add: process_line_def current_connected_def)

lemma parse_lines_no_header:
  "list_all (\<lambda>l. \<not> strstr (c_str l) '' connected'') ls \<Longrightarrow> current_display_ptr st = None \<Longrightarrow>
     parse_lines ls st = Inr st"
  by (induction ls) (simp_all add: process_line_other)

lemma filter_empty_list_all: "(filter P xs = []) = list_all (\<lambda>x. \<not> P x) xs"
  by (induction xs) auto

text \<open>
  C2, amended: \<open>parse_xrandr_output\<close> returns the null pointer when \<open>popen\<close> fails, and
  on a report it returns the null pointer exactly when no line read contains
  \<open>" connected"\<close>; \<open>setup_display_data\<close> returns \<open>false\<close> on the null pointer and
  \<open>main\<close> then exits with code 1, whichever of the two it came from.
\<close>

theorem null_result_iff_no_header:
  "parse_xrandr_output None = Inr None
   \<and> (parse_xrandr_output (Some fp) = Inr None) =
       list_all (\<lambda>l. \<not> strstr (c_str l) '' connected'') (read_lines fp)
   \<and> setup_display_data (Inr None) = Inr None
   \<and> (main_start report = Return 1) = (parse_xrandr_output report = Inr None)"
proof (intro conjI)
  show "parse_xrandr_output None = Inr None" by (simp add: parse_xrandr_output_def)
next
  let ?st = "\<lparr>displays = [], current_display_ptr = None\<rparr>"
  show "(parse_xrandr_output (Some fp) = Inr None) =
      list_all (\<lambda>l. \<not> strstr (c_str l) '' connected'') (read_lines fp)"
  proof
    assume a: "parse_xrandr_output (Some fp) = Inr None"
    then obtain st' where p: "parse_lines (read_lines fp) ?st = Inr st'" and e: "displays st' = []"
      by (auto simp: parse_xrandr_output_def split: sum.splits if_splits)
    from parse_lines_length[OF p] e
    have "filter (\<lambda>l. strstr (c_str l) '' connected'') (read_lines fp) = []" by simp
    then show "list_all (\<lambda>l. \<not> strstr (c_str l) '' connected'') (read_lines fp)"
      by (simp add: filter_empty_list_all)
  next
    assume "list_all (\<lambda>l. \<not> strstr (c_str l) '' connected'') (read_lines fp)"
    then have "parse_lines (read_lines fp) ?st = Inr ?st"
      by (rule parse_lines_no_header) simp
    then show "parse_xrandr_output (Some fp) = Inr None"
      by (simp add: parse_xrandr_output_def)
  qed
next
  show "setup_display_data (Inr None) = Inr None" by (rule setup_display_data_None)
next
  show "(main_start report = Return 1) = (parse_xrandr_output report = Inr None)"
  proof (cases "parse_xrandr_output report")
    case (Inl f)
    then show ?thesis by (simp add: main_start_def setup_display_data_Inl)
  next
    case (Inr r)
    then show ?thesis
      by (cases r) (simp_all add: main_start_def setup_display_data_None setup_display_data_Some)
  qed
qed

text \<open>
  C2, as stated, fails: on the empty report the parser returns what it returns when
  \<open>popen\<close> fails, the null pointer, and the program ends with the exit code of a
  failure.
\<close>

theorem empty_report_counterexample:
  "parse_xrandr_output (Some []) = Inr None
   \<and> parse_xrandr_output (Some []) = parse_xrandr_output None
   \<and> setup_display_data (parse_xrandr_output (Some [])) = Inr None
   \<and> main_start (Some []) = Return 1"
  by (simp add: parse_xrandr_output_def read_lines.simps fgets_def setup_display_data_def main_start_def)

section \<open>Properties of the command strings\<close>

lemma digit_cases:
  assumes "(d::nat) < 10"
  shows "d = 0 \<or> d = 1 \<or> d = 2 \<or> d = 3 \<or> d = 4 \<or> d = 5 \<or> d = 6 \<or> d = 7 \<or> d = 8 \<or> d = 9"
  using assms by arith

lemma isdigit_char_of: "(d::nat) < 10 \<Longrightarrow> isdigit (digit_char d)"
  using digit_cases[of d] by (auto simp: isdigit_def digit_char_def)


lemma digits_isdigit: "list_all isdigit (digits n)"
proof (induction n rule: digits.induct)
  case (1 n)
  show ?case
  proof (cases "n < 10")
    case True
    then show ?thesis by (simp add: digits.simps[of n] isdigit_char_of)
  next
    case False
    have "n mod 10 < 10" by simp
    with False "1.IH" show ?thesis by (simp add: digits.simps[of n] isdigit_char_of)
  qed
qed












lemma digits_not_space: "list_all (\<lambda>c. \<not> isspace c) (digits n)"
proof -
  have "\<And>c. isdigit c \<Longrightarrow> \<not> isspace c" by (auto simp: isdigit_def isspace_def)
  with digits_isdigit[of n] show ?thesis by (induction "digits n") (auto simp: list_all_iff)
qed



lemma dropWhile_none: "list_all (\<lambda>c. \<not> P c) xs \<Longrightarrow> xs \<noteq> [] \<Longrightarrow> dropWhile P xs = xs"
  by (cases xs) auto










lemma strtod_texts:
  "strtod ''inf'' = Some (Infinity False, [])"
  "strtod ''0x1p700'' = Some (Finite False huge_rate, [])"
  by (simp_all add: strtod_defs char_class huge_rate_def)


section \<open>Properties of the navigation\<close>

lemma rateless_parse:
  "parse_xrandr_output (Some rateless_report) =
     Inr (Some [display_A [\<lparr>mode_width = 1, mode_height = 1, refresh_rates = []\<rparr>]])"
  by (simp add: parse_xrandr_output_def rateless_report_def read_lines.simps fgets_def c_str_def
      line_defs scan_defs char_class parse_rates.simps strtod_defs display_A_def)

lemma rateless_start:
  "main_start (Some rateless_report) =
     Continue \<lparr>data = \<lparr>menu_items = [''A'', ''Exit''], num_items = 2,
         connected_displays = [display_A [\<lparr>mode_width = 1, mode_height = 1, refresh_rates = []\<rparr>]],
         connected_count = 1\<rparr>,
       state = STATE_MONITOR_SELECT, monitor_highlight = 0,
       mode_highlight = 0, rate_highlight = 0, monitor_scroll = 0, mode_scroll = 0,
       rate_scroll = 0, pos_panel_focus = POS_PANEL_TARGET, pos_target_highlight = 0,
       pos_direction_highlight = 0, position_target_displays = None,
       position_target_count = 0\<rparr>"
  by (simp add: main_start_def rateless_parse setup_display_data_Some display_A_def)

text \<open>
  C3: on a display whose only mode line has no rate, Enter twice (or the right key
  twice) from the start leads to the rate panel with a selected mode that has no rate:
  the transition tests \<open>mode_count\<close> of the display, not \<open>rate_count\<close> of the mode.
  Enter in that state reads \<open>refresh_rates[0]\<close> of an empty array.
\<close>

theorem rate_panel_entered_without_rates:
  "\<exists>a m. run [(24, None, Key_enter), (24, None, Key_enter)] (main_start (Some rateless_report))
           = Continue a
     \<and> state a = STATE_RATE_SELECT
     \<and> at_index (modes (connected_displays (data a) ! nat (monitor_highlight a))) (mode_highlight a)
           = Some m
     \<and> refresh_rates m = []
     \<and> run [(24, None, Key_right), (24, None, Key_right)] (main_start (Some rateless_report))
           = Continue a
     \<and> step 24 (Some rateless_report) Key_enter a = Undefined"
  by (simp add: rateless_start step_def key_enter_def key_right_def at_index_def mode_count_def
      display_A_def selected_rate_def)










lemma c_rem_self: "c_rem n n = 0"
  by (simp add: c_rem_def)

lemma down_last: "fst (down_in_list (n - 1) sc n v) = 0"
  by (simp add: down_in_list_def c_rem_self Let_def)

lemma up_first: "fst (up_in_list 0 sc n v) = n - 1"
  by (simp add: up_in_list_def Let_def)

lemma at_index_Some_length: "at_index xs i = Some x \<Longrightarrow> 0 < int (length xs)"
  by (auto simp: at_index_def split: if_splits)

lemma wrap_monitor:
  assumes "state a = STATE_MONITOR_SELECT" and "current_list a = Some (n, i)"
  shows "(0 < n \<and> i = n - 1 \<longrightarrow>
            (\<exists>a'. step rows report Key_down a = Continue a' \<and> current_list a' = Some (n, 0)))
       \<and> (0 < n \<and> i = 0 \<longrightarrow>
            (\<exists>a'. step rows report Key_up a = Continue a' \<and> current_list a' = Some (n, n - 1)))"
proof -
  from assms have n: "num_items (data a) = n" and i: "monitor_highlight a = i"
    by (simp_all add: current_list_def)
  show ?thesis
  proof (intro conjI impI)
    assume h: "0 < n \<and> i = n - 1"
    obtain h' sc' where d: "down_in_list (n - 1) (monitor_scroll a) n (rows - 4) = (h', sc')"
      by (cases "down_in_list (n - 1) (monitor_scroll a) n (rows - 4)")
    with down_last[of n "monitor_scroll a" "rows - 4"] have "h' = 0" by simp
    with d h n i assms(1)
    show "\<exists>a'. step rows report Key_down a = Continue a' \<and> current_list a' = Some (n, 0)"
      by (simp add: step_def key_down_def current_list_def)
  next
    assume h: "0 < n \<and> i = 0"
    obtain h' sc' where d: "up_in_list 0 (monitor_scroll a) n (rows - 4) = (h', sc')"
      by (cases "up_in_list 0 (monitor_scroll a) n (rows - 4)")
    with up_first[of "monitor_scroll a" n "rows - 4"] have "h' = n - 1" by simp
    with d h n i assms(1)
    show "\<exists>a'. step rows report Key_up a = Continue a' \<and> current_list a' = Some (n, n - 1)"
      by (simp add: step_def key_up_def current_list_def)
  qed
qed

lemma wrap_mode:
  assumes "state a = STATE_MODE_SELECT" and "current_list a = Some (n, i)"
  shows "(0 < n \<and> i = n - 1 \<longrightarrow>
            (\<exists>a'. step rows report Key_down a = Continue a' \<and> current_list a' = Some (n, 0)))
       \<and> (0 < n \<and> i = 0 \<longrightarrow>
            (\<exists>a'. step rows report Key_up a = Continue a' \<and> current_list a' = Some (n, n - 1)))
       \<and> (n = 0 \<longrightarrow>
            step rows report Key_down a = Continue a \<and> step rows report Key_up a = Continue a)"
proof -
  from assms obtain d where sel: "at_index (connected_displays (data a)) (monitor_highlight a) = Some d"
    and n: "mode_count d = n" and i: "mode_highlight a = i"
    by (auto simp: current_list_def split: option.splits)
  let ?v = "right_panel_view_height rows"
  show ?thesis
  proof (intro conjI impI)
    assume h: "0 < n \<and> i = n - 1"
    obtain h' sc' where d: "down_in_list (n - 1) (mode_scroll a) n ?v = (h', sc')"
      by (cases "down_in_list (n - 1) (mode_scroll a) n ?v")
    with down_last[of n "mode_scroll a" ?v] have "h' = 0" by simp
    with d h n i sel assms(1)
    show "\<exists>a'. step rows report Key_down a = Continue a' \<and> current_list a' = Some (n, 0)"
      by (simp add: step_def key_down_def current_list_def)
  next
    assume h: "0 < n \<and> i = 0"
    obtain h' sc' where d: "up_in_list 0 (mode_scroll a) n ?v = (h', sc')"
      by (cases "up_in_list 0 (mode_scroll a) n ?v")
    with up_first[of "mode_scroll a" n ?v] have "h' = n - 1" by simp
    with d h n i sel assms(1)
    show "\<exists>a'. step rows report Key_up a = Continue a' \<and> current_list a' = Some (n, n - 1)"
      by (simp add: step_def key_up_def current_list_def)
  next
    assume "n = 0"
    with n sel assms(1) show "step rows report Key_down a = Continue a"
      by (simp add: step_def key_down_def)
  next
    assume "n = 0"
    with n sel assms(1) show "step rows report Key_up a = Continue a"
      by (simp add: step_def key_up_def)
  qed
qed

lemma wrap_rate:
  assumes "state a = STATE_RATE_SELECT" and "current_list a = Some (n, i)"
  shows "(0 < n \<and> i = n - 1 \<longrightarrow>
            (\<exists>a'. step rows report Key_down a = Continue a' \<and> current_list a' = Some (n, 0)))
       \<and> (0 < n \<and> i = 0 \<longrightarrow>
            (\<exists>a'. step rows report Key_up a = Continue a' \<and> current_list a' = Some (n, n - 1)))
       \<and> (n = 0 \<longrightarrow>
            step rows report Key_down a = Continue a \<and> step rows report Key_up a = Continue a)"
proof -
  from assms obtain d m where sel: "at_index (connected_displays (data a)) (monitor_highlight a) = Some d"
    and selm: "at_index (modes d) (mode_highlight a) = Some m"
    and n: "rate_count m = n" and i: "rate_highlight a = i"
    by (auto simp: current_list_def split: option.splits)
  from at_index_Some_length[OF selm] have mc: "0 < mode_count d" by (simp add: mode_count_def)
  let ?v = "right_panel_view_height rows"
  show ?thesis
  proof (intro conjI impI)
    assume h: "0 < n \<and> i = n - 1"
    obtain h' sc' where d: "down_in_list (n - 1) (rate_scroll a) n ?v = (h', sc')"
      by (cases "down_in_list (n - 1) (rate_scroll a) n ?v")
    with down_last[of n "rate_scroll a" ?v] have "h' = 0" by simp
    with d h n i sel selm mc assms(1)
    show "\<exists>a'. step rows report Key_down a = Continue a' \<and> current_list a' = Some (n, 0)"
      by (simp add: step_def key_down_def current_list_def)
  next
    assume h: "0 < n \<and> i = 0"
    obtain h' sc' where d: "up_in_list 0 (rate_scroll a) n ?v = (h', sc')"
      by (cases "up_in_list 0 (rate_scroll a) n ?v")
    with up_first[of "rate_scroll a" n ?v] have "h' = n - 1" by simp
    with d h n i sel selm mc assms(1)
    show "\<exists>a'. step rows report Key_up a = Continue a' \<and> current_list a' = Some (n, n - 1)"
      by (simp add: step_def key_up_def current_list_def)
  next
    assume "n = 0"
    with n sel selm mc assms(1) show "step rows report Key_down a = Continue a"
      by (simp add: step_def key_down_def)
  next
    assume "n = 0"
    with n sel selm mc assms(1) show "step rows report Key_up a = Continue a"
      by (simp add: step_def key_up_def)
  qed
qed

lemma wrap_position:
  assumes "state a = STATE_POSITION_SELECT" and "current_list a = Some (n, i)"
  shows "(0 < n \<and> i = n - 1 \<longrightarrow>
            (\<exists>a'. step rows report Key_down a = Continue a' \<and> current_list a' = Some (n, 0)))
       \<and> (0 < n \<and> i = 0 \<longrightarrow>
            (\<exists>a'. step rows report Key_up a = Continue a' \<and> current_list a' = Some (n, n - 1)))
       \<and> (n = 0 \<longrightarrow>
            step rows report Key_down a = Continue a \<and> step rows report Key_up a = Continue a)"
proof (cases "pos_panel_focus a = POS_PANEL_TARGET")
  case True
  with assms have n: "position_target_count a = n" and i: "pos_target_highlight a = i"
    by (simp_all add: current_list_def)
  from True n i assms(1) show ?thesis
    by (auto simp: step_def key_down_def key_up_def current_list_def c_rem_self)
next
  case False
  with assms have n: "position_direction_count = n" and i: "pos_direction_highlight a = i"
    by (simp_all add: current_list_def)
  from False n i assms(1) show ?thesis
    by (auto simp: step_def key_down_def key_up_def current_list_def c_rem_self
        position_direction_count_def position_directions_def)
qed

text \<open>
  C7: in a list of \<open>n > 0\<close> entries, \<open>j\<close> on the last index selects index 0 and \<open>k\<close>
  on index 0 selects the last index, for the menu, the modes, the rates, the targets
  and the directions; in an empty list of modes, rates or targets both keys change
  nothing.
\<close>

theorem selection_wraps_around:
  assumes "current_list a = Some (n, i)"
  shows "(0 < n \<and> i = n - 1 \<longrightarrow>
            (\<exists>a'. step rows report Key_down a = Continue a' \<and> current_list a' = Some (n, 0)))
       \<and> (0 < n \<and> i = 0 \<longrightarrow>
            (\<exists>a'. step rows report Key_up a = Continue a' \<and> current_list a' = Some (n, n - 1)))
       \<and> (n = 0 \<and> state a \<noteq> STATE_MONITOR_SELECT \<longrightarrow>
            step rows report Key_down a = Continue a \<and> step rows report Key_up a = Continue a)"
proof (cases "state a")
  case STATE_MONITOR_SELECT
  with wrap_monitor[OF this assms, of rows report] show ?thesis by simp
next
  case STATE_MODE_SELECT
  with wrap_mode[OF this assms, of rows report] show ?thesis by simp
next
  case STATE_RATE_SELECT
  with wrap_rate[OF this assms, of rows report] show ?thesis by simp
next
  case STATE_POSITION_SELECT
  with wrap_position[OF this assms, of rows report] show ?thesis by simp
qed

theorem selection_wraps_around_witness:
  "(\<exists>a'. step 24 None Key_up two_displays_app = Continue a' \<and> current_list a' = Some (3, 2))
   \<and> (\<exists>a'. step 24 None Key_down (two_displays_app\<lparr>monitor_highlight := 2\<rparr>) = Continue a'
          \<and> current_list a' = Some (3, 0))
   \<and> step 24 None Key_down (two_displays_app\<lparr>state := STATE_MODE_SELECT\<rparr>)
       = Continue (two_displays_app\<lparr>state := STATE_MODE_SELECT\<rparr>)
   \<and> step 24 None Key_up (two_displays_app\<lparr>state := STATE_MODE_SELECT\<rparr>)
       = Continue (two_displays_app\<lparr>state := STATE_MODE_SELECT\<rparr>)"
proof -
  have l0: "current_list two_displays_app = Some (3, 0)"
    by (simp add: current_list_def two_displays_app_def two_displays_data_def)
  have l2: "current_list (two_displays_app\<lparr>monitor_highlight := 2\<rparr>) = Some (3, 2)"
    by (simp add: current_list_def two_displays_app_def two_displays_data_def)
  have lE: "current_list (two_displays_app\<lparr>state := STATE_MODE_SELECT\<rparr>) = Some (0, 0)"
    by (simp add: current_list_def two_displays_app_def two_displays_data_def at_index_def
        mode_count_def display_A_def)
  have sE: "state (two_displays_app\<lparr>state := STATE_MODE_SELECT\<rparr>) \<noteq> STATE_MONITOR_SELECT"
    by simp
  from selection_wraps_around[OF l0, of 24 None] selection_wraps_around[OF l2, of 24 None]
    selection_wraps_around[OF lE, of 24 None] sE
  show ?thesis by simp
qed

subsection \<open>The states the loop can be in\<close>

lemma c_rem_range: "0 \<le> h \<Longrightarrow> h < n \<Longrightarrow> 0 \<le> c_rem (h + 1) n \<and> c_rem (h + 1) n < n"
  by (simp add: c_rem_def)

lemma down_range:
  "0 \<le> h \<Longrightarrow> h < n \<Longrightarrow> down_in_list h sc n v = (h', sc') \<Longrightarrow> 0 \<le> h' \<and> h' < n"
  using c_rem_range[of h n] by (auto simp: down_in_list_def Let_def)

lemma up_range:
  "0 \<le> h \<Longrightarrow> h < n \<Longrightarrow> up_in_list h sc n v = (h', sc') \<Longrightarrow> 0 \<le> h' \<and> h' < n"
  by (auto simp: up_in_list_def Let_def)

lemma setup_data_inv:
  "setup_display_data parsed = Inr (Some d) \<Longrightarrow> data_inv d"
proof -
  assume a: "setup_display_data parsed = Inr (Some d)"
  then obtain ds where "parsed = Inr (Some ds)"
    by (auto simp: setup_display_data_def split: sum.splits option.splits)
  with a show ?thesis by (auto simp: setup_display_data_Some data_inv_def)
qed

lemma reset_inv: "data_inv d \<Longrightarrow> nav_inv (reset_to_top d a)"
  by (simp add: nav_inv_def reset_to_top_def data_inv_def)

lemma reparse_inv: "reparse report a = Continue a' \<Longrightarrow> nav_inv a'"
  by (auto simp: reparse_def split: sum.splits option.splits intro: reset_inv setup_data_inv)

lemma start_inv: "main_start report = Continue a \<Longrightarrow> nav_inv a"
proof -
  assume a: "main_start report = Continue a"
  then obtain d where d: "setup_display_data (parse_xrandr_output report) = Inr (Some d)"
    and a': "a = \<lparr>data = d, state = STATE_MONITOR_SELECT, monitor_highlight = 0,
            mode_highlight = 0, rate_highlight = 0, monitor_scroll = 0, mode_scroll = 0,
            rate_scroll = 0, pos_panel_focus = POS_PANEL_TARGET, pos_target_highlight = 0,
            pos_direction_highlight = 0, position_target_displays = None,
            position_target_count = 0\<rparr>"
    by (auto simp: main_start_def split: sum.splits option.splits)
  from setup_data_inv[OF d] a' show ?thesis by (simp add: nav_inv_def data_inv_def)
qed

lemma at_index_Some_iff: "(at_index xs i = Some x) = (0 \<le> i \<and> i < int (length xs) \<and> x = xs ! nat i)"
  by (auto simp: at_index_def)

lemma at_index_in_range: "0 \<le> i \<Longrightarrow> i < int (length xs) \<Longrightarrow> at_index xs i = Some (xs ! nat i)"
  by (simp add: at_index_def)

lemma build_targets_length:
  "build_targets cds n h i = Some ts \<Longrightarrow> i \<le> n \<Longrightarrow>
     int (length ts) = n - i - (if i \<le> h \<and> h < n then 1 else 0)"
proof (induction cds n h i arbitrary: ts rule: build_targets.induct)
  case (1 cds n h i)
  have e: "build_targets cds n h i =
     (if i < n then
        (if i = h then build_targets cds n h (i + 1)
         else
           (case at_index cds i of
              None \<Rightarrow> None
            | Some d \<Rightarrow> map_option ((#) d) (build_targets cds n h (i + 1))))
      else Some [])"
    by (rule build_targets.simps)
  show ?case
  proof (cases "i < n")
    case False
    with "1.prems" e show ?thesis by simp
  next
    case True
    note lt = True
    show ?thesis
    proof (cases "i = h")
      case True
      with lt "1.prems"(1) e have "build_targets cds n h (i + 1) = Some ts" by metis
      from "1.IH"(1)[OF lt True this] lt True show ?thesis by simp
    next
      case False
      with lt "1.prems"(1) e
      have "(case at_index cds i of None \<Rightarrow> None
             | Some d \<Rightarrow> map_option ((#) d) (build_targets cds n h (i + 1))) = Some ts"
        by metis
      then obtain d ts' where d: "at_index cds i = Some d"
        and r: "build_targets cds n h (i + 1) = Some ts'" and ts: "ts = d # ts'"
        by (auto split: option.splits)
      from "1.IH"(2)[OF lt False d r] lt False ts show ?thesis by auto
    qed
  qed
qed

lemma key_p_inv:
  assumes "nav_inv a" and "key_p a = Continue a'"
  shows "nav_inv a'"
proof (cases "state a = STATE_MONITOR_SELECT \<and> connected_count (data a) > 1")
  case False
  with assms show ?thesis by (simp add: key_p_def)
next
  case True
  with assms(2) obtain ts where
    b: "build_targets (connected_displays (data a)) (connected_count (data a)) (monitor_highlight a) 0
          = Some ts"
    and le: "int (length ts) \<le> connected_count (data a) - 1"
    and a': "a' = a\<lparr>state := STATE_POSITION_SELECT,
                 position_target_count := connected_count (data a) - 1,
                 position_target_displays := Some ts,
                 pos_panel_focus := POS_PANEL_TARGET, pos_target_highlight := 0,
                 pos_direction_highlight := 0\<rparr>"
    by (auto simp: key_p_def split: option.splits if_splits)
  from True have "0 \<le> connected_count (data a)" by simp
  from build_targets_length[OF b this] le assms(1)
  have h: "monitor_highlight a < connected_count (data a)"
    and l: "int (length ts) = connected_count (data a) - 1"
    by (auto simp: nav_inv_def split: if_splits)
  with assms(1) True a' show ?thesis
    by (simp add: nav_inv_def position_inv_def position_direction_count_def position_directions_def)
qed

lemma key_tab_inv: "nav_inv a \<Longrightarrow> key_tab a = Continue a' \<Longrightarrow> nav_inv a'"
  by (auto simp: key_tab_def nav_inv_def position_inv_def mode_inv_def
      split: if_splits AppState.splits option.splits)

lemma key_left_inv: "nav_inv a \<Longrightarrow> key_left a = Continue a' \<Longrightarrow> nav_inv a'"
  by (auto simp: key_left_def nav_inv_def mode_inv_def
      split: if_splits AppState.splits option.splits)

lemma key_right_inv:
  assumes "nav_inv a" and "key_right a = Continue a'"
  shows "nav_inv a'"
proof (cases "state a")
  case STATE_MONITOR_SELECT
  show ?thesis
  proof (cases "monitor_highlight a < connected_count (data a)")
    case True
    with assms STATE_MONITOR_SELECT
    have "at_index (connected_displays (data a)) (monitor_highlight a)
        = Some (connected_displays (data a) ! nat (monitor_highlight a))"
      by (intro at_index_in_range) (auto simp: nav_inv_def data_inv_def)
    with assms STATE_MONITOR_SELECT True show ?thesis
      by (auto simp: key_right_def nav_inv_def mode_inv_def mode_count_def)
  next
    case False
    with assms STATE_MONITOR_SELECT show ?thesis by (simp add: key_right_def)
  qed
next
  case STATE_MODE_SELECT
  with assms show ?thesis
    by (auto simp: key_right_def nav_inv_def mode_inv_def split: option.splits if_splits)
next
  case STATE_RATE_SELECT
  with assms show ?thesis by (simp add: key_right_def)
next
  case STATE_POSITION_SELECT
  with assms show ?thesis by (simp add: key_right_def)
qed

lemma key_enter_inv:
  assumes "nav_inv a" and "key_enter report a = Continue a'"
  shows "nav_inv a'"
proof (cases "state a")
  case STATE_MONITOR_SELECT
  with assms have ne: "monitor_highlight a \<noteq> connected_count (data a)"
    by (auto simp: key_enter_def split: if_splits)
  with assms(1) have lt: "monitor_highlight a < connected_count (data a)"
    by (auto simp: nav_inv_def data_inv_def)
  with assms(1)
  have "at_index (connected_displays (data a)) (monitor_highlight a)
      = Some (connected_displays (data a) ! nat (monitor_highlight a))"
    by (intro at_index_in_range) (auto simp: nav_inv_def data_inv_def)
  with assms STATE_MONITOR_SELECT ne show ?thesis
    by (auto simp: key_enter_def nav_inv_def mode_inv_def mode_count_def)
next
  case STATE_MODE_SELECT
  with assms show ?thesis
    by (auto simp: key_enter_def nav_inv_def mode_inv_def split: option.splits if_splits)
next
  case STATE_RATE_SELECT
  with assms(2) have "reparse report (a\<lparr>position_target_displays := None\<rparr>) = Continue a'"
    by (auto simp: key_enter_def split: option.splits)
  then show ?thesis by (rule reparse_inv)
next
  case STATE_POSITION_SELECT
  with assms(2) have "reparse report (a\<lparr>position_target_displays := None\<rparr>) = Continue a'"
    by (auto simp: key_enter_def split: option.splits)
  then show ?thesis by (rule reparse_inv)
qed

lemma key_o_inv:
  assumes "nav_inv a" and "key_o report a = Continue a'"
  shows "nav_inv a'"
proof (cases "state a = STATE_MONITOR_SELECT \<and> monitor_highlight a < connected_count (data a)")
  case True
  with assms(2) have "reparse report a = Continue a'"
    by (auto simp: key_o_def split: option.splits)
  then show ?thesis by (rule reparse_inv)
next
  case False
  with assms show ?thesis by (auto simp: key_o_def)
qed

lemma key_up_inv:
  assumes "nav_inv a" and "key_up rows a = Continue a'"
  shows "nav_inv a'"
proof (cases "state a")
  case STATE_MONITOR_SELECT
  obtain h sc where u: "up_in_list (monitor_highlight a) (monitor_scroll a) (num_items (data a))
      (rows - 4) = (h, sc)"
    by (cases "up_in_list (monitor_highlight a) (monitor_scroll a) (num_items (data a)) (rows - 4)")
  from assms(1) have "0 \<le> monitor_highlight a" and "monitor_highlight a < num_items (data a)"
    by (simp_all add: nav_inv_def)
  from up_range[OF this u] assms u STATE_MONITOR_SELECT show ?thesis
    by (auto simp: key_up_def nav_inv_def)
next
  case STATE_MODE_SELECT
  with assms(1) obtain d where d: "at_index (connected_displays (data a)) (monitor_highlight a) = Some d"
    and m: "0 \<le> mode_highlight a" "mode_highlight a < mode_count d \<or> mode_count d = 0"
    by (auto simp: nav_inv_def mode_inv_def split: option.splits)
  show ?thesis
  proof (cases "mode_count d > 0")
    case False
    with assms d STATE_MODE_SELECT show ?thesis by (simp add: key_up_def)
  next
    case True
    obtain h sc where u: "up_in_list (mode_highlight a) (mode_scroll a) (mode_count d)
        (right_panel_view_height rows) = (h, sc)"
      by (cases "up_in_list (mode_highlight a) (mode_scroll a) (mode_count d)
        (right_panel_view_height rows)")
    from m True have "mode_highlight a < mode_count d" by simp
    from up_range[OF m(1) this u] assms u d True STATE_MODE_SELECT show ?thesis
      by (auto simp: key_up_def nav_inv_def mode_inv_def)
  qed
next
  case STATE_RATE_SELECT
  with assms show ?thesis
    by (auto simp: key_up_def nav_inv_def mode_inv_def
        split: option.splits if_splits prod.splits)
next
  case STATE_POSITION_SELECT
  with assms show ?thesis
    by (auto simp: key_up_def nav_inv_def position_inv_def position_direction_count_def
        position_directions_def split: option.splits if_splits)
qed

lemma key_down_inv:
  assumes "nav_inv a" and "key_down rows a = Continue a'"
  shows "nav_inv a'"
proof (cases "state a")
  case STATE_MONITOR_SELECT
  obtain h sc where u: "down_in_list (monitor_highlight a) (monitor_scroll a) (num_items (data a))
      (rows - 4) = (h, sc)"
    by (cases "down_in_list (monitor_highlight a) (monitor_scroll a) (num_items (data a)) (rows - 4)")
  from assms(1) have "0 \<le> monitor_highlight a" and "monitor_highlight a < num_items (data a)"
    by (simp_all add: nav_inv_def)
  from down_range[OF this u] assms u STATE_MONITOR_SELECT show ?thesis
    by (auto simp: key_down_def nav_inv_def split: if_splits)
next
  case STATE_MODE_SELECT
  with assms(1) obtain d where d: "at_index (connected_displays (data a)) (monitor_highlight a) = Some d"
    and m: "0 \<le> mode_highlight a" "mode_highlight a < mode_count d \<or> mode_count d = 0"
    by (auto simp: nav_inv_def mode_inv_def split: option.splits)
  show ?thesis
  proof (cases "mode_count d > 0")
    case False
    with assms d STATE_MODE_SELECT show ?thesis by (simp add: key_down_def)
  next
    case True
    obtain h sc where u: "down_in_list (mode_highlight a) (mode_scroll a) (mode_count d)
        (right_panel_view_height rows) = (h, sc)"
      by (cases "down_in_list (mode_highlight a) (mode_scroll a) (mode_count d)
        (right_panel_view_height rows)")
    from m True have "mode_highlight a < mode_count d" by simp
    from down_range[OF m(1) this u] assms u d True STATE_MODE_SELECT show ?thesis
      by (auto simp: key_down_def nav_inv_def mode_inv_def)
  qed
next
  case STATE_RATE_SELECT
  with assms show ?thesis
    by (auto simp: key_down_def nav_inv_def mode_inv_def
        split: option.splits if_splits prod.splits)
next
  case STATE_POSITION_SELECT
  show ?thesis
  proof (cases "pos_panel_focus a = POS_PANEL_TARGET")
    case True
    from assms(1) STATE_POSITION_SELECT
    have r: "0 \<le> pos_target_highlight a" "pos_target_highlight a < position_target_count a"
      by (auto simp: nav_inv_def position_inv_def split: option.splits)
    from c_rem_range[OF r] r assms True STATE_POSITION_SELECT show ?thesis
      by (auto simp: key_down_def nav_inv_def position_inv_def split: option.splits if_splits)
  next
    case False
    from assms(1) STATE_POSITION_SELECT
    have r: "0 \<le> pos_direction_highlight a" "pos_direction_highlight a < position_direction_count"
      by (auto simp: nav_inv_def position_inv_def split: option.splits)
    from c_rem_range[OF r] assms False STATE_POSITION_SELECT show ?thesis
      by (auto simp: key_down_def nav_inv_def position_inv_def split: option.splits if_splits)
  qed
qed

lemma step_inv:
  assumes "nav_inv a" and "step rows report k a = Continue a'"
  shows "nav_inv a'"
proof (cases k)
  case Key_q
  with assms show ?thesis by (simp add: step_def)
next
  case Key_o
  with assms key_o_inv show ?thesis by (simp add: step_def)
next
  case Key_p
  with assms key_p_inv show ?thesis by (simp add: step_def)
next
  case Key_resize
  with assms show ?thesis by (simp add: step_def)
next
  case Key_up
  with assms key_up_inv show ?thesis by (simp add: step_def)
next
  case Key_down
  with assms key_down_inv show ?thesis by (simp add: step_def)
next
  case Key_tab
  with assms key_tab_inv show ?thesis by (simp add: step_def)
next
  case Key_right
  with assms key_right_inv show ?thesis by (simp add: step_def)
next
  case Key_left
  with assms key_left_inv show ?thesis by (simp add: step_def)
next
  case Key_enter
  with assms key_enter_inv show ?thesis by (simp add: step_def)
next
  case Key_other
  with assms show ?thesis by (simp add: step_def)
qed

text \<open>Every state of the loop satisfies the invariant.\<close>

lemma reachable_inv: "reachable a \<Longrightarrow> nav_inv a"
  by (induction rule: reachable.induct) (auto intro: start_inv step_inv)

text \<open>
  In every state of the loop the list that \<open>j\<close> and \<open>k\<close> move in can be read, which is
  what the statement of C7 asks of a state.
\<close>

lemma reachable_current_list:
  assumes "reachable a"
  shows "\<exists>n i. current_list a = Some (n, i)"
  using reachable_inv[OF assms]
  by (auto simp: nav_inv_def mode_inv_def current_list_def at_index_def mode_count_def
      split: AppState.splits option.splits if_splits)

text \<open>
  What does hold of the rate panel in every state of the loop: the selected display has a
  mode and the selected mode is one of its modes.
\<close>

lemma reachable_rate_panel:
  assumes "reachable a" and "state a = STATE_RATE_SELECT"
  shows "\<exists>d m. at_index (connected_displays (data a)) (monitor_highlight a) = Some d
           \<and> 0 < mode_count d \<and> at_index (modes d) (mode_highlight a) = Some m"
  using reachable_inv[OF assms(1)] assms(2)
  by (auto simp: nav_inv_def mode_inv_def at_index_def mode_count_def
      split: option.splits if_splits)

end
